theory Spec2Isabelle
  imports
    Main
    "HOL-Library.Char_ord"
    "HOL-Library.List_Lexorder"
    "HOL-Library.Product_Lexorder"
    "HOL-Library.AList"
begin

section \<open>Python values\<close>

text \<open>
  The persistence layer (\<^verbatim>\<open>scripts/test_persistence.py\<close>) moves JSON documents in and
  out of an SQLite file.  A Python value that comes from \<^verbatim>\<open>json.load\<close> or goes into
  \<^verbatim>\<open>json.dumps\<close> is a \<open>json\<close>.  A dict is an association list in insertion order;
  \<^verbatim>\<open>d.get(k)\<close> is \<open>map_of\<close>, \<^verbatim>\<open>d.items()\<close> is the list itself.  A character is a
  code point below 256, so that the order of \<open>string\<close> (lexicographic, by code point) is
  the order Python's \<^verbatim>\<open>sorted\<close> and SQLite's BINARY collation use.  Floating-point
  arithmetic is not modelled: a float is carried as \<open>JNum r t\<close> with the two texts the
  module can observe of it, \<open>r\<close> the text \<^verbatim>\<open>json.dumps\<close> prints for it and \<open>t\<close> the
  text SQLite stores when the float is bound into a TEXT column, which is SQLite's own
  rendering of the number and NULL (\<open>None\<close>) for a NaN.
\<close>

datatype json =
    JNull
  | JBool bool
  | JInt int
  | JNum string "string option"
  | JStr string
  | JArr "json list"
  | JObj "(string \<times> json) list"

datatype error =
    AttributeError
  | IntegrityError
  | InterfaceError
  | OverflowError
  | FileNotFoundError
  | JSONDecodeError
  | UnicodeDecodeError
  | RecursionError

text \<open>Python truth value, as \<^verbatim>\<open>x or y\<close> and \<^verbatim>\<open>if x\<close> test it.\<close>

fun truthy :: "json \<Rightarrow> bool" where
  "truthy JNull = False"
| "truthy (JBool b) = b"
| "truthy (JInt i) = (i \<noteq> 0)"
| "truthy (JNum r t) = (r \<noteq> ''0.0'' \<and> r \<noteq> ''-0.0'')"
| "truthy (JStr s) = (s \<noteq> [])"
| "truthy (JArr xs) = (xs \<noteq> [])"
| "truthy (JObj kvs) = (kvs \<noteq> [])"

text \<open>\<^verbatim>\<open>x.get(key, default)\<close> and \<^verbatim>\<open>x.items()\<close>: only a dict has them.\<close>

definition dict_get :: "(string \<times> json) list \<Rightarrow> string \<Rightarrow> json \<Rightarrow> json" where
  "dict_get kvs k d = (case map_of kvs k of None \<Rightarrow> d | Some v \<Rightarrow> v)"

fun py_get :: "json \<Rightarrow> string \<Rightarrow> json \<Rightarrow> error + json" where
  "py_get (JObj kvs) k d = Inr (dict_get kvs k d)"
| "py_get _ k d = Inl AttributeError"

fun py_items :: "json \<Rightarrow> error + (string \<times> json) list" where
  "py_items (JObj kvs) = Inr kvs"
| "py_items _ = Inl AttributeError"

fun is_dict :: "json \<Rightarrow> bool" where
  "is_dict (JObj kvs) = True"
| "is_dict _ = False"

definition and_then :: "error + 'a \<Rightarrow> ('a \<Rightarrow> error + 'b) \<Rightarrow> error + 'b" where
  "and_then r f = (case r of Inl e \<Rightarrow> Inl e | Inr x \<Rightarrow> f x)"

subsection \<open>\<^verbatim>\<open>json.dumps\<close>\<close>

definition hexdigit :: "nat \<Rightarrow> char" where
  "hexdigit n = ''0123456789abcdef'' ! (n mod 16)"

definition digit :: "nat \<Rightarrow> char" where
  "digit n = ''0123456789'' ! (n mod 10)"

fun show_nat :: "nat \<Rightarrow> string" where
  "show_nat n = (if n < 10 then [digit n] else show_nat (n div 10) @ [digit n])"

declare show_nat.simps [simp del]

definition show_int :: "int \<Rightarrow> string" where
  "show_int i = (if i < 0 then CHR ''-'' # show_nat (nat (- i)) else show_nat (nat i))"

text \<open>
  \<^verbatim>\<open>ensure_ascii=True\<close>: the quote and the backslash are escaped, the five control
  characters with a short escape get it, and every other character outside
  \<^verbatim>\<open>' '..'~'\<close> becomes \<^verbatim>\<open>\u00xx\<close>.
\<close>

definition escape_char :: "char \<Rightarrow> string" where
  "escape_char c =
     (if c = CHR 0x22 then [CHR 0x5C, CHR 0x22]
      else if c = CHR 0x5C then [CHR 0x5C, CHR 0x5C]
      else if c = CHR 0x0A then [CHR 0x5C, CHR ''n'']
      else if c = CHR 0x0D then [CHR 0x5C, CHR ''r'']
      else if c = CHR 0x09 then [CHR 0x5C, CHR ''t'']
      else if c = CHR 0x08 then [CHR 0x5C, CHR ''b'']
      else if c = CHR 0x0C then [CHR 0x5C, CHR ''f'']
      else if (32::nat) \<le> of_char c \<and> of_char c \<le> (126::nat) then [c]
      else [CHR 0x5C, CHR ''u'', CHR ''0'', CHR ''0'',
            hexdigit (of_char c div 16), hexdigit (of_char c)])"

definition encode_str :: "string \<Rightarrow> string" where
  "encode_str s = [CHR 0x22] @ concat (map escape_char s) @ [CHR 0x22]"

fun join :: "string \<Rightarrow> string list \<Rightarrow> string" where
  "join sep [] = []"
| "join sep [x] = x"
| "join sep (x # y # ys) = x @ sep @ join sep (y # ys)"

text \<open>
  \<open>dumps sort_keys v\<close> is \<^verbatim>\<open>json.dumps(v, sort_keys=sort_keys)\<close> with the default
  separators.  With \<open>sort_keys\<close> the items of every dict are emitted in the order of
  their keys.
\<close>

function dumps :: "bool \<Rightarrow> json \<Rightarrow> string" where
  "dumps sk JNull = ''null''"
| "dumps sk (JBool b) = (if b then ''true'' else ''false'')"
| "dumps sk (JInt i) = show_int i"
| "dumps sk (JNum r t) = r"
| "dumps sk (JStr s) = encode_str s"
| "dumps sk (JArr xs) = ''['' @ join '', '' (map (dumps sk) xs) @ '']''"
| "dumps sk (JObj kvs) =
     ''{'' @ join '', ''
        (map (\<lambda>kv. encode_str (fst kv) @ '': '' @ dumps sk (snd kv))
          (if sk then sort_key fst kvs else kvs)) @ ''}''"
  by pat_completeness auto

lemma json_size_item:
  "(k, v) \<in> set kvs \<Longrightarrow> size v < Suc (size_list (size_prod (\<lambda>_. 0) size) kvs)"
  by (induction kvs) auto

lemma json_size_elem:
  "x \<in> set xs \<Longrightarrow> size x < Suc (size_list size xs)"
  by (induction xs) auto

termination dumps
  by (relation "measure (\<lambda>p. size (snd p))")
     (auto simp: json_size_item json_size_elem split: if_splits)


section \<open>The store\<close>

text \<open>
  The SQLite file holds four tables (\<^verbatim>\<open>_init_database\<close>).  A table without a key is
  the list of its rows in rowid order, so that an INSERT appends; \<^verbatim>\<open>command_registry\<close>
  has the primary key (command, subcommand) and is a map from that key.  A column is
  typed by what the INSERT statements of the module can put there: a TEXT column that
  only ever receives a bound string or CURRENT_TIMESTAMP is a \<open>string\<close>, one that can
  receive NULL is a \<open>string option\<close>.  A timestamp is the text SQLite stores
  (\<^verbatim>\<open>YYYY-MM-DD HH:MM:SS\<close>); MAX and ORDER BY compare it as text.  The column
  \<^verbatim>\<open>aliases\<close> is declared JSON and can end up holding a number; it is the value
  \<^verbatim>\<open>sqlite3\<close> reads back from it.
\<close>

record test_session =
  ts_session_id :: string
  ts_started_at :: string
  ts_ended_at :: "string option"
  ts_user_id :: string
  ts_guild_id :: string
  ts_channel_id :: string

record test_result =
  tr_session_id :: string
  tr_command :: string
  tr_subcommand :: string
  tr_status :: string
  tr_tested_at :: string
  tr_notes :: "string option"
  tr_error_output :: string
  tr_execution_time_ms :: int
  tr_metadata :: string

record registry_entry =
  cr_description :: "string option"
  cr_aliases :: json
  cr_discovered_at :: string
  cr_last_modified :: string
  cr_is_active :: bool

record test_snapshot =
  sn_snapshot_id :: nat
  sn_created_at :: string
  sn_snapshot_data :: string
  sn_checksum :: string
  sn_description :: string

record store =
  test_sessions :: "test_session list"
  test_results :: "test_result list"
  command_registry :: "string \<times> string \<Rightarrow> registry_entry option"
  test_snapshots :: "test_snapshot list"

definition empty_store :: store where
  "empty_store =
     \<lparr>test_sessions = [], test_results = [], command_registry = Map.empty,
      test_snapshots = []\<rparr>"

subsection \<open>Binding a Python value to a statement parameter\<close>

text \<open>
  \<^verbatim>\<open>sqlite3\<close> binds None, int, float and str; a list or a dict is refused and an int
  outside 64 bits overflows.  A number bound into a TEXT column is stored as text: an
  int as its decimal digits, a float as the rendering \<open>JNum\<close> carries for it.
\<close>

fun bind_text :: "json \<Rightarrow> error + string option" where
  "bind_text JNull = Inr None"
| "bind_text (JBool b) = Inr (Some (if b then ''1'' else ''0''))"
| "bind_text (JInt i) =
     (if - (2 ^ 63) \<le> i \<and> i < 2 ^ 63 then Inr (Some (show_int i)) else Inl OverflowError)"
| "bind_text (JNum r t) = Inr t"
| "bind_text (JStr s) = Inr (Some s)"
| "bind_text (JArr xs) = Inl InterfaceError"
| "bind_text (JObj kvs) = Inl InterfaceError"

definition bind_integer :: "int \<Rightarrow> error + int" where
  "bind_integer i = (if - (2 ^ 63) \<le> i \<and> i < 2 ^ 63 then Inr i else Inl OverflowError)"

text \<open>A NOT NULL column refuses NULL when the statement runs.\<close>

definition not_null :: "'a option \<Rightarrow> error + 'a" where
  "not_null v = (case v of None \<Rightarrow> Inl IntegrityError | Some x \<Rightarrow> Inr x)"

text \<open>A nullable TEXT column read back by \<^verbatim>\<open>sqlite3\<close>: None or a str.\<close>

definition text_value :: "string option \<Rightarrow> json" where
  "text_value v = (case v of None \<Rightarrow> JNull | Some t \<Rightarrow> JStr t)"

section \<open>Sessions and results\<close>

text \<open>
  \<^verbatim>\<open>hashlib.sha256(...).hexdigest()\<close> is a parameter \<open>sha256\<close> of every operation that
  hashes: the digest is not computed here, and what is proved holds for every digest
  function.  A clock reading is a parameter as well: \<open>now\<close> is the text of
  CURRENT_TIMESTAMP when the statement runs, \<open>now_str\<close> is \<^verbatim>\<open>str(datetime.now())\<close>.
\<close>

definition start_session ::
  "(string \<Rightarrow> string) \<Rightarrow> string \<Rightarrow> string \<Rightarrow> string \<Rightarrow> string \<Rightarrow> string \<Rightarrow> store
     \<Rightarrow> error + string \<times> store" where
  "start_session sha256 now_str now user_id guild_id channel_id s =
     (let session_id = take 16 (sha256 (user_id @ guild_id @ channel_id @ now_str))
      in if session_id \<in> ts_session_id ` set (test_sessions s) then Inl IntegrityError
         else Inr (session_id,
           s\<lparr>test_sessions := test_sessions s @
               [\<lparr>ts_session_id = session_id, ts_started_at = now, ts_ended_at = None,
                 ts_user_id = user_id, ts_guild_id = guild_id,
                 ts_channel_id = channel_id\<rparr>]\<rparr>))"

definition end_session :: "string \<Rightarrow> string \<Rightarrow> store \<Rightarrow> store" where
  "end_session now session_id s =
     s\<lparr>test_sessions :=
         map (\<lambda>t. if ts_session_id t = session_id then t\<lparr>ts_ended_at := Some now\<rparr> else t)
           (test_sessions s)\<rparr>"

text \<open>\<^verbatim>\<open>subcommand or ""\<close>: None and the empty string both give the empty string.\<close>

definition or_empty :: "string option \<Rightarrow> string" where
  "or_empty subcommand = (case subcommand of None \<Rightarrow> [] | Some x \<Rightarrow> x)"

text \<open>
  \<^verbatim>\<open>record_test\<close>.  \<open>status\<close> and \<open>notes\<close> are the Python values the caller passes
  (\<^verbatim>\<open>migrate_from_json\<close> passes what it read from the document); a caller that keeps
  to the annotations passes \<open>JStr\<close>.  \<open>metadata\<close> is a dict or None, as annotated, and
  \<^verbatim>\<open>metadata or {}\<close> is the empty dict for both None and the empty dict.  The text of a
  dict is no number, so the column \<^verbatim>\<open>metadata\<close>, declared JSON, keeps it as text.  An
  exception leaves the table as it was.
\<close>

definition record_test ::
  "string \<Rightarrow> string \<Rightarrow> string \<Rightarrow> string option \<Rightarrow> json \<Rightarrow> json \<Rightarrow> string \<Rightarrow> int
     \<Rightarrow> (string \<times> json) list option \<Rightarrow> store \<Rightarrow> error + store" where
  "record_test now session_id command subcommand status notes error_output
       execution_time_ms metadata s =
     and_then (bind_text status) (\<lambda>st.
     and_then (bind_text notes) (\<lambda>nt.
     and_then (bind_integer execution_time_ms) (\<lambda>ms.
     and_then (not_null st) (\<lambda>st'.
       Inr (s\<lparr>test_results := test_results s @
             [\<lparr>tr_session_id = session_id, tr_command = command,
               tr_subcommand = or_empty subcommand, tr_status = st',
               tr_tested_at = now, tr_notes = nt, tr_error_output = error_output,
               tr_execution_time_ms = ms,
               tr_metadata =
                 dumps False (JObj (case metadata of None \<Rightarrow> [] | Some kvs \<Rightarrow> kvs))\<rparr>]\<rparr>)))))"

section \<open>The command registry\<close>

text \<open>
  \<^verbatim>\<open>INSERT OR REPLACE\<close> removes the row with the same key and inserts the new one: the
  columns the statement does not name take their defaults, \<^verbatim>\<open>discovered_at\<close>
  CURRENT_TIMESTAMP and \<^verbatim>\<open>is_active\<close> 1.
\<close>

definition insert_or_replace ::
  "string \<Rightarrow> string \<Rightarrow> string \<Rightarrow> string option \<Rightarrow> json
     \<Rightarrow> (string \<times> string \<Rightarrow> registry_entry option)
     \<Rightarrow> (string \<times> string \<Rightarrow> registry_entry option)" where
  "insert_or_replace now command subcommand description aliases reg =
     reg((command, subcommand) \<mapsto>
       \<lparr>cr_description = description, cr_aliases = aliases, cr_discovered_at = now,
        cr_last_modified = now, cr_is_active = True\<rparr>)"

text \<open>
  A column declared JSON has NUMERIC affinity: a text that is a number is stored as that
  number, and \<^verbatim>\<open>sqlite3\<close> reads an int or a float back.  \<^verbatim>\<open>json.dumps\<close> prints a
  number for an int and for a float only.  An int of 64 bits comes back as it is.  What
  comes back for the text of a larger int or of a float (a float, an int when it is a
  whole number, the text itself for \<^verbatim>\<open>NaN\<close>) is not computed here: it is the parameter
  \<open>numeric\<close>, a function of the text.  Every other value comes back as its text.
\<close>

definition json_column :: "(string \<Rightarrow> json) \<Rightarrow> json \<Rightarrow> json" where
  "json_column numeric a =
     (case a of
        JInt i \<Rightarrow> if - (2 ^ 63) \<le> i \<and> i < 2 ^ 63 then JInt i else numeric (show_int i)
      | JNum r t \<Rightarrow> numeric r
      | _ \<Rightarrow> JStr (dumps False a))"

text \<open>
  CURRENT_TIMESTAMP is read by every statement for itself: \<open>clock n\<close> is its text when
  statement number \<open>n\<close> of the call runs, and the loops hand the number of the next
  statement on.  Within one statement the default of \<^verbatim>\<open>discovered_at\<close> and the value
  given to \<^verbatim>\<open>last_modified\<close> are the same reading.
\<close>

fun update_subcommands ::
  "(string \<Rightarrow> json) \<Rightarrow> (nat \<Rightarrow> string) \<Rightarrow> nat \<Rightarrow> string \<Rightarrow> (string \<times> json) list
     \<Rightarrow> (string \<times> string \<Rightarrow> registry_entry option)
     \<Rightarrow> error + nat \<times> (string \<times> string \<Rightarrow> registry_entry option)" where
  "update_subcommands numeric clock n cmd_name [] reg = Inr (n, reg)"
| "update_subcommands numeric clock n cmd_name ((subcmd_name, subcmd_info) # rest) reg =
     and_then (py_get subcmd_info ''description'' (JStr [])) (\<lambda>d.
     and_then (py_get subcmd_info ''aliases'' (JArr [])) (\<lambda>a.
     and_then (bind_text d) (\<lambda>d'.
       update_subcommands numeric clock (Suc n) cmd_name rest
         (insert_or_replace (clock n) cmd_name subcmd_name d' (json_column numeric a) reg))))"

fun update_commands ::
  "(string \<Rightarrow> json) \<Rightarrow> (nat \<Rightarrow> string) \<Rightarrow> nat \<Rightarrow> (string \<times> json) list
     \<Rightarrow> (string \<times> string \<Rightarrow> registry_entry option)
     \<Rightarrow> error + nat \<times> (string \<times> string \<Rightarrow> registry_entry option)" where
  "update_commands numeric clock n [] reg = Inr (n, reg)"
| "update_commands numeric clock n ((cmd_name, cmd_info) # rest) reg =
     and_then (py_get cmd_info ''description'' (JStr [])) (\<lambda>d.
     and_then (py_get cmd_info ''aliases'' (JArr [])) (\<lambda>a.
     and_then (bind_text d) (\<lambda>d'.
     and_then (py_get cmd_info ''subcommands'' (JObj [])) (\<lambda>subs.
     and_then (py_items subs) (\<lambda>items.
     and_then
       (update_subcommands numeric clock (Suc n) cmd_name items
         (insert_or_replace (clock n) cmd_name [] d' (json_column numeric a) reg))
       (\<lambda>r. update_commands numeric clock (fst r) rest (snd r)))))))"

text \<open>
  \<^verbatim>\<open>update_command_registry\<close>: one transaction, committed after the loop.  An
  exception inside the loop leaves the connection uncommitted, so the table is unchanged.
\<close>

definition update_command_registry ::
  "(string \<Rightarrow> json) \<Rightarrow> (nat \<Rightarrow> string) \<Rightarrow> json \<Rightarrow> store \<Rightarrow> error + store" where
  "update_command_registry numeric clock commands s =
     and_then (py_items commands) (\<lambda>items.
     and_then (update_commands numeric clock 0 items (command_registry s)) (\<lambda>r.
       Inr (s\<lparr>command_registry := snd r\<rparr>)))"


section \<open>Queries\<close>

text \<open>
  \<^verbatim>\<open>ORDER BY tested_at DESC\<close>.  SQL leaves the order of rows with equal keys open; the
  model keeps them in the order of the scan, which is one of the orders the store may
  choose.  Nothing proved below depends on that choice.
\<close>

fun insert_desc :: "test_result \<Rightarrow> test_result list \<Rightarrow> test_result list" where
  "insert_desc x [] = [x]"
| "insert_desc x (y # ys) =
     (if tr_tested_at y \<le> tr_tested_at x then x # y # ys else y # insert_desc x ys)"

definition order_by_tested_at_desc :: "test_result list \<Rightarrow> test_result list" where
  "order_by_tested_at_desc rows = foldr insert_desc rows []"

definition fetchone :: "'a list \<Rightarrow> 'a option" where
  "fetchone rows = (case rows of [] \<Rightarrow> None | r # _ \<Rightarrow> Some r)"

definition status_record :: "test_result \<Rightarrow> json" where
  "status_record r =
     JObj [(''status'', JStr (tr_status r)),
           (''last_tested'', JStr (tr_tested_at r)),
           (''notes'', text_value (tr_notes r)),
           (''error_output'', JStr (tr_error_output r)),
           (''execution_time_ms'', JInt (tr_execution_time_ms r))]"

definition get_test_status :: "string \<Rightarrow> string option \<Rightarrow> store \<Rightarrow> json" where
  "get_test_status command subcommand s =
     (let rows = filter (\<lambda>r. tr_command r = command \<and> tr_subcommand r = or_empty subcommand)
                   (test_results s);
          result = fetchone (take 1 (order_by_tested_at_desc rows))
      in case result of
           Some r \<Rightarrow> status_record r
         | None \<Rightarrow> JObj [(''status'', JStr ''untested'')])"

text \<open>
  \<^verbatim>\<open>SELECT MAX(tested_at) FROM test_results GROUP BY command, subcommand\<close>: one value
  for each group, NULL for no rows.
\<close>

fun sql_max :: "string list \<Rightarrow> string option" where
  "sql_max [] = None"
| "sql_max (t # ts) = Some (fold max ts t)"

definition result_key :: "test_result \<Rightarrow> string \<times> string" where
  "result_key r = (tr_command r, tr_subcommand r)"

definition group_maxima :: "test_result list \<Rightarrow> string option list" where
  "group_maxima rows =
     map (\<lambda>k. sql_max (map tr_tested_at (filter (\<lambda>r. result_key r = k) rows)))
       (remdups (map result_key rows))"

text \<open>
  The rows the two "latest" queries keep: \<^verbatim>\<open>WHERE tested_at IN (SELECT MAX ...)\<close>.
  The subquery is not correlated with the outer row.
\<close>

definition latest_rows :: "test_result list \<Rightarrow> test_result list" where
  "latest_rows rows = filter (\<lambda>r. Some (tr_tested_at r) \<in> set (group_maxima rows)) rows"

text \<open>
  One row of \<^verbatim>\<open>get_all_test_results\<close> as \<^verbatim>\<open>dict(row)\<close>, with the columns of the left
  join: NULL where the registry has no entry for the key.
\<close>

definition result_row ::
  "(string \<times> string \<Rightarrow> registry_entry option) \<Rightarrow> test_result \<Rightarrow> (string \<times> json) list" where
  "result_row reg r =
     [(''command'', JStr (tr_command r)),
      (''subcommand'', JStr (tr_subcommand r)),
      (''status'', JStr (tr_status r)),
      (''tested_at'', JStr (tr_tested_at r)),
      (''notes'', text_value (tr_notes r)),
      (''error_output'', JStr (tr_error_output r)),
      (''execution_time_ms'', JInt (tr_execution_time_ms r)),
      (''description'',
         (case reg (result_key r) of None \<Rightarrow> JNull | Some c \<Rightarrow> text_value (cr_description c))),
      (''aliases'',
         (case reg (result_key r) of None \<Rightarrow> JNull | Some c \<Rightarrow> cr_aliases c))]"

definition select_latest :: "store \<Rightarrow> (string \<times> json) list list" where
  "select_latest s =
     map (result_row (command_registry s))
       (sort_key result_key (latest_rows (test_results s)))"

subsection \<open>Reconciliation with the discovered commands\<close>

text \<open>
  The file \<^verbatim>\<open>test_results/discovered_commands.json\<close> when the query runs: absent;
  unreadable, when \<^verbatim>\<open>open\<close> or \<^verbatim>\<open>json.load\<close> raises \<^verbatim>\<open>IOError\<close> or
  \<^verbatim>\<open>json.JSONDecodeError\<close>; failing, when they raise another exception
  (\<^verbatim>\<open>UnicodeDecodeError\<close> for bytes that are not UTF-8, \<^verbatim>\<open>RecursionError\<close> for a
  document nested too deep); or loaded.  The reconciliation catches the first two
  exceptions only.
\<close>

datatype doc_file = Missing | Unreadable | Failing error | Loaded json

definition untested_record :: "json \<Rightarrow> json \<Rightarrow> json \<Rightarrow> json \<Rightarrow> (string \<times> json) list" where
  "untested_record command subcommand description aliases =
     [(''command'', command),
      (''subcommand'', subcommand),
      (''status'', JStr ''untested''),
      (''tested_at'', JStr ''Never''),
      (''notes'', JStr []),
      (''description'', description),
      (''aliases'', aliases),
      (''error_output'', JNull),
      (''execution_time_ms'', JNull)]"

text \<open>\<^verbatim>\<open>(command, subcommand or None)\<close> for every row already in the list.\<close>

definition pair_of_result :: "(string \<times> json) list \<Rightarrow> json \<times> json" where
  "pair_of_result result =
     (let command = dict_get result ''command'' (JStr []);
          subcommand = dict_get result ''subcommand'' (JStr [])
      in (command, if truthy subcommand then subcommand else JNull))"

definition existing_pairs_of :: "(string \<times> json) list list \<Rightarrow> (json \<times> json) set" where
  "existing_pairs_of existing_results = pair_of_result ` set existing_results"

fun add_subcommands ::
  "(json \<times> json) set \<Rightarrow> string \<Rightarrow> (string \<times> json) list \<Rightarrow> (string \<times> json) list list
     \<Rightarrow> error + (string \<times> json) list list" where
  "add_subcommands existing_pairs command [] results = Inr results"
| "add_subcommands existing_pairs command ((sub_name, sub_data) # rest) results =
     (if (JStr command, JStr sub_name) \<notin> existing_pairs then
        and_then (py_get sub_data ''description'' (JStr [])) (\<lambda>d.
        and_then (py_get sub_data ''aliases'' (JArr [])) (\<lambda>a.
          add_subcommands existing_pairs command rest
            (results @ [untested_record (JStr command) (JStr sub_name) d a])))
      else add_subcommands existing_pairs command rest results)"

text \<open>
  The base command is added when it has no row and its description is true; the test
  \<^verbatim>\<open>cmd_data.get('description')\<close> is only reached when the first conjunct holds.
\<close>

definition add_base_command ::
  "(json \<times> json) set \<Rightarrow> string \<Rightarrow> json \<Rightarrow> (string \<times> json) list list
     \<Rightarrow> error + (string \<times> json) list list" where
  "add_base_command existing_pairs command cmd_data results =
     (if (JStr command, JNull) \<notin> existing_pairs then
        and_then (py_get cmd_data ''description'' JNull) (\<lambda>d.
          if truthy d then
            and_then (py_get cmd_data ''aliases'' (JArr [])) (\<lambda>a.
              Inr (results @ [untested_record (JStr command) JNull d a]))
          else Inr results)
      else Inr results)"

fun add_commands ::
  "(json \<times> json) set \<Rightarrow> (string \<times> json) list \<Rightarrow> (string \<times> json) list list
     \<Rightarrow> error + (string \<times> json) list list" where
  "add_commands existing_pairs [] results = Inr results"
| "add_commands existing_pairs ((command, cmd_data) # rest) results =
     and_then (add_base_command existing_pairs command cmd_data results) (\<lambda>results1.
     and_then (py_get cmd_data ''subcommands'' (JObj [])) (\<lambda>subs.
     and_then (py_items subs) (\<lambda>items.
     and_then (add_subcommands existing_pairs command items results1)
       (add_commands existing_pairs rest))))"

definition integrate_with_discovered_commands ::
  "doc_file \<Rightarrow> (string \<times> json) list list \<Rightarrow> error + (string \<times> json) list list" where
  "integrate_with_discovered_commands discovered existing_results =
     (case discovered of
        Missing \<Rightarrow> Inr existing_results
      | Unreadable \<Rightarrow> Inr existing_results
      | Failing e \<Rightarrow> Inl e
      | Loaded discovered_commands \<Rightarrow>
          and_then (py_items discovered_commands) (\<lambda>items.
            add_commands (existing_pairs_of existing_results) items existing_results))"

definition get_all_test_results :: "doc_file \<Rightarrow> store \<Rightarrow> error + (string \<times> json) list list" where
  "get_all_test_results discovered s =
     integrate_with_discovered_commands discovered (select_latest s)"


subsection \<open>Statistics\<close>

text \<open>
  \<open>day_ago\<close> is the text of \<^verbatim>\<open>datetime('now', '-1 day')\<close> when the query runs.
  \<^verbatim>\<open>AVG\<close> is a float; \<open>avg_repr\<close> gives the text \<^verbatim>\<open>json.dumps\<close> prints for the
  average of a list of integers and is a parameter.  No statement binds the average,
  so the text a TEXT column would store for it is never used and is left \<open>None\<close>.  The
  average is 0.0, and then replaced by the integer 0 (\<^verbatim>\<open>overall[3] or 0\<close>), exactly
  when the sum is 0.  The groups of \<^verbatim>\<open>GROUP BY status\<close> are listed in the order of
  their status.
\<close>

definition avg_value :: "(int list \<Rightarrow> string) \<Rightarrow> int list \<Rightarrow> json" where
  "avg_value avg_repr ms =
     (if ms = [] \<or> sum_list ms = 0 then JInt 0 else JNum (avg_repr ms) None)"

definition status_distribution :: "test_result list \<Rightarrow> (string \<times> json) list" where
  "status_distribution rows =
     map (\<lambda>st. (st, JInt (int (length (filter (\<lambda>r. tr_status r = st) (latest_rows rows))))))
       (remdups (sort (map tr_status (latest_rows rows))))"

definition get_statistics :: "(int list \<Rightarrow> string) \<Rightarrow> string \<Rightarrow> store \<Rightarrow> json" where
  "get_statistics avg_repr day_ago s =
     (let rows = test_results s in
      JObj [(''total_commands'',
               JInt (int (length (remdups
                 (map (\<lambda>r. tr_command r @ '':'' @ tr_subcommand r) rows))))),
            (''total_sessions'', JInt (int (length (remdups (map tr_session_id rows))))),
            (''total_tests'', JInt (int (length rows))),
            (''avg_execution_time_ms'', avg_value avg_repr (map tr_execution_time_ms rows)),
            (''status_distribution'', JObj (status_distribution rows)),
            (''tests_last_24h'',
               JInt (int (length (filter (\<lambda>r. day_ago < tr_tested_at r) rows))))])"

section \<open>Snapshots\<close>

text \<open>
  \<open>timestamp\<close> is \<^verbatim>\<open>datetime.now().isoformat()\<close>.  The checksum is the digest of the
  snapshot serialised with sorted keys; the row stores the unsorted serialisation, the
  text of a dict, which the column \<^verbatim>\<open>snapshot_data\<close>, declared JSON, keeps as text.
\<close>

definition snapshot_data_of :: "string \<Rightarrow> (string \<times> json) list list \<Rightarrow> json \<Rightarrow> json" where
  "snapshot_data_of timestamp results stats =
     JObj [(''timestamp'', JStr timestamp),
           (''results'', JArr (map JObj results)),
           (''statistics'', stats)]"

definition checksum_of :: "(string \<Rightarrow> string) \<Rightarrow> json \<Rightarrow> string" where
  "checksum_of sha256 snapshot_data = sha256 (dumps True snapshot_data)"

definition create_snapshot ::
  "(string \<Rightarrow> string) \<Rightarrow> (int list \<Rightarrow> string) \<Rightarrow> string \<Rightarrow> string \<Rightarrow> string \<Rightarrow> string
     \<Rightarrow> doc_file \<Rightarrow> store \<Rightarrow> error + nat \<times> store" where
  "create_snapshot sha256 avg_repr timestamp now day_ago description discovered s =
     and_then (get_all_test_results discovered s) (\<lambda>results.
       let stats = get_statistics avg_repr day_ago s;
           snapshot_data = snapshot_data_of timestamp results stats;
           checksum = checksum_of sha256 snapshot_data;
           snapshot_id = Suc (length (test_snapshots s))
       in Inr (snapshot_id,
            s\<lparr>test_snapshots := test_snapshots s @
                [\<lparr>sn_snapshot_id = snapshot_id, sn_created_at = now,
                  sn_snapshot_data = dumps False snapshot_data, sn_checksum = checksum,
                  sn_description = description\<rparr>]\<rparr>))"

section \<open>Migration of the legacy document\<close>

text \<open>
  Every \<^verbatim>\<open>record_test\<close> commits on its own, so the rows written before an exception
  stay: the loops return the store they reached together with the exception, if any.
  \<open>clock k\<close> is CURRENT_TIMESTAMP when the table holds \<open>k\<close> rows.
\<close>

fun migrate_subcommands ::
  "(nat \<Rightarrow> string) \<Rightarrow> string \<Rightarrow> string \<Rightarrow> (string \<times> json) list \<Rightarrow> store
     \<Rightarrow> error option \<times> store" where
  "migrate_subcommands clock session_id command [] s = (None, s)"
| "migrate_subcommands clock session_id command ((subcommand, info) # rest) s =
     (case info of
        JObj kvs \<Rightarrow>
          (if ''status'' \<in> fst ` set kvs then
             (let subcmd = (if subcommand = ''_self'' then None else Some subcommand) in
              case record_test (clock (length (test_results s))) session_id command subcmd
                     (dict_get kvs ''status'' (JStr ''untested''))
                     (dict_get kvs ''notes'' (JStr [])) [] 0
                     (Some [(''migrated'', JBool True)]) s of
                Inl e \<Rightarrow> (Some e, s)
              | Inr s' \<Rightarrow> migrate_subcommands clock session_id command rest s')
           else migrate_subcommands clock session_id command rest s)
      | _ \<Rightarrow> migrate_subcommands clock session_id command rest s)"

fun migrate_commands ::
  "(nat \<Rightarrow> string) \<Rightarrow> string \<Rightarrow> (string \<times> json) list \<Rightarrow> store \<Rightarrow> error option \<times> store" where
  "migrate_commands clock session_id [] s = (None, s)"
| "migrate_commands clock session_id ((command, content) # rest) s =
     (case content of
        JObj kvs \<Rightarrow>
          (case migrate_subcommands clock session_id command kvs s of
             (Some e, s') \<Rightarrow> (Some e, s')
           | (None, s') \<Rightarrow> migrate_commands clock session_id rest s')
      | _ \<Rightarrow> migrate_commands clock session_id rest s)"

text \<open>
  \<^verbatim>\<open>migrate_from_json\<close>.  The file at \<^verbatim>\<open>json_path\<close> is absent, unreadable, failing or
  loaded;
  \<open>started\<close> and \<open>ended\<close> are CURRENT_TIMESTAMP at the start and the end of the
  session.  Every exception is caught and turned into False.
\<close>

definition migrate_from_json ::
  "(string \<Rightarrow> string) \<Rightarrow> string \<Rightarrow> string \<Rightarrow> (nat \<Rightarrow> string) \<Rightarrow> string \<Rightarrow> doc_file \<Rightarrow> store
     \<Rightarrow> bool \<times> store" where
  "migrate_from_json sha256 now_str started clock ended file s =
     (case file of
        Missing \<Rightarrow> (False, s)
      | Unreadable \<Rightarrow> (False, s)
      | Failing e \<Rightarrow> (False, s)
      | Loaded data \<Rightarrow>
          (case start_session sha256 now_str started ''migration'' ''migration''
                  ''migration'' s of
             Inl e \<Rightarrow> (False, s)
           | Inr (session_id, s1) \<Rightarrow>
               (case py_items data of
                  Inl e \<Rightarrow> (False, s1)
                | Inr items \<Rightarrow>
                    (case migrate_commands clock session_id items s1 of
                       (Some e, s2) \<Rightarrow> (False, s2)
                     | (None, s2) \<Rightarrow> (True, end_session ended session_id s2)))))"

section \<open>Backups\<close>

text \<open>
  The backups directory is the list of its \<^verbatim>\<open>*.db.gz\<close> files in the order the
  directory lists them, each with its modification time and the store it holds
  compressed.  Writing a file under a name that exists replaces it in place; a new name
  goes to the end of the listing.  \<open>stamp\<close> is
  \<^verbatim>\<open>datetime.now().strftime("%Y%m%d_%H%M%S")\<close>, \<open>mtime\<close> the modification time the
  written file gets.  A backup is named by its file name inside the directory.
  \<open>outside\<close> holds the gzip files at the paths that are not files of the backups
  directory, each with the store it holds compressed; no operation writes there.
\<close>

record backup_file =
  bf_mtime :: nat
  bf_image :: store

record files =
  db :: store
  backups :: "(string \<times> backup_file) list"
  outside :: "string \<Rightarrow> store option"

text \<open>\<^verbatim>\<open>backups[:-keep]\<close>: for \<open>keep = 0\<close> the slice \<^verbatim>\<open>[:0]\<close> is empty.\<close>

definition all_but_last :: "nat \<Rightarrow> 'a list \<Rightarrow> 'a list" where
  "all_but_last keep xs = (if keep = 0 then [] else take (length xs - keep) xs)"

fun unlink_all :: "string list \<Rightarrow> (string \<times> backup_file) list \<Rightarrow> (string \<times> backup_file) list" where
  "unlink_all [] dir = dir"
| "unlink_all (name # names) dir = unlink_all names (AList.delete name dir)"

definition cleanup_old_backups :: "nat \<Rightarrow> files \<Rightarrow> files" where
  "cleanup_old_backups keep f =
     (let sorted_backups = sort_key (\<lambda>p. bf_mtime (snd p)) (backups f)
      in if length sorted_backups > keep
         then f\<lparr>backups := unlink_all (map fst (all_but_last keep sorted_backups)) (backups f)\<rparr>
         else f)"

definition backup_name :: "string \<Rightarrow> string \<Rightarrow> string" where
  "backup_name backup_type stamp = ''test_data_'' @ backup_type @ ''_'' @ stamp @ ''.db.gz''"

definition create_backup :: "string \<Rightarrow> string \<Rightarrow> nat \<Rightarrow> files \<Rightarrow> string \<times> files" where
  "create_backup backup_type stamp mtime f =
     (let f1 = f\<lparr>backups :=
                 AList.update (backup_name backup_type stamp)
                   \<lparr>bf_mtime = mtime, bf_image = db f\<rparr> (backups f)\<rparr>
      in (backup_name backup_type stamp, cleanup_old_backups 10 f1))"

text \<open>A caller that creates one backup after the other: (type, stamp, mtime) of each call.\<close>

fun create_backups :: "(string \<times> string \<times> nat) list \<Rightarrow> files \<Rightarrow> files" where
  "create_backups [] f = f"
| "create_backups ((backup_type, stamp, mtime) # calls) f =
     create_backups calls (snd (create_backup backup_type stamp mtime f))"

definition name_of_call :: "string \<times> string \<times> nat \<Rightarrow> string" where
  "name_of_call c = backup_name (fst c) (fst (snd c))"

definition mtime_of_call :: "string \<times> string \<times> nat \<Rightarrow> nat" where
  "mtime_of_call c = snd (snd c)"

text \<open>
  \<^verbatim>\<open>restore_backup\<close>.  The path exists when it names a backup of the directory or a
  file outside it.  \<^verbatim>\<open>gzip.open\<close> raises when the file is not there any more, before
  the store is opened for writing; the files are returned as the call leaves them.
\<close>

definition restore_backup ::
  "string \<Rightarrow> string \<Rightarrow> nat \<Rightarrow> files \<Rightarrow> (error + bool) \<times> files" where
  "restore_backup backup_path stamp mtime f =
     (if backup_path \<in> fst ` set (backups f) then
        (let f1 = snd (create_backup ''pre_restore'' stamp mtime f) in
         case map_of (backups f1) backup_path of
           None \<Rightarrow> (Inl FileNotFoundError, f1)
         | Some b \<Rightarrow> (Inr True, f1\<lparr>db := bf_image b\<rparr>))
      else
        (case outside f backup_path of
           None \<Rightarrow> (Inr False, f)
         | Some stored \<Rightarrow>
             (Inr True, (snd (create_backup ''pre_restore'' stamp mtime f))\<lparr>db := stored\<rparr>)))"

subsection \<open>Latest status: notions and inputs of the statements\<close>

text \<open>
  The rows of a (command, subcommand) pair, the subcommand normalised as
  \<^verbatim>\<open>record_test\<close> and \<^verbatim>\<open>get_test_status\<close> do.  \<open>trivia_store\<close> is the store after
  two \<^verbatim>\<open>record_test\<close> calls for the base command \<^verbatim>\<open>trivia\<close>, five minutes apart.
\<close>

definition matches :: "string \<Rightarrow> string option \<Rightarrow> test_result \<Rightarrow> bool" where
  "matches command subcommand r \<longleftrightarrow>
     tr_command r = command \<and> tr_subcommand r = or_empty subcommand"

definition trivia_store :: store where
  "trivia_store =
     (case record_test ''2024-03-01 10:00:00'' ''5f2a'' ''trivia'' (Some [])
             (JStr ''passed'') (JStr []) [] 120 None empty_store of
        Inl e \<Rightarrow> empty_store
      | Inr s1 \<Rightarrow>
          (case record_test ''2024-03-01 10:05:00'' ''5f2a'' ''trivia'' None
                  (JStr ''failed'') (JStr ''timeout'') [] 0 None s1 of
             Inl e \<Rightarrow> s1
           | Inr s2 \<Rightarrow> s2))"

subsection \<open>All results: notions and inputs of the statements\<close>

text \<open>
  A discovered-commands document is well formed when it is a dict of dicts whose
  \<^verbatim>\<open>subcommands\<close>, if present, is a dict of dicts: on any other document the
  reconciliation raises \<^verbatim>\<open>AttributeError\<close>.
\<close>

definition field :: "json \<Rightarrow> string \<Rightarrow> json \<Rightarrow> json" where
  "field v k d = (case v of JObj kvs \<Rightarrow> dict_get kvs k d | _ \<Rightarrow> d)"

definition subcommands_of :: "json \<Rightarrow> (string \<times> json) list" where
  "subcommands_of cmd_data =
     (case field cmd_data ''subcommands'' (JObj []) of JObj subs \<Rightarrow> subs | _ \<Rightarrow> [])"

definition wf_command :: "json \<Rightarrow> bool" where
  "wf_command cmd_data \<longleftrightarrow>
     is_dict cmd_data \<and> is_dict (field cmd_data ''subcommands'' (JObj [])) \<and>
     list_all (\<lambda>p. is_dict (snd p)) (subcommands_of cmd_data)"

definition wf_doc :: "(string \<times> json) list \<Rightarrow> bool" where
  "wf_doc items \<longleftrightarrow> list_all (\<lambda>p. wf_command (snd p)) items"

text \<open>
  The (command, subcommand) pair of a returned record, a null or empty subcommand read
  as the empty string; the pairs of the recorded results; the pairs a document declares
  as subcommands; and the base pairs of its commands that have a true description.
\<close>

definition pair_of_record :: "(string \<times> json) list \<Rightarrow> json \<times> json" where
  "pair_of_record r =
     (dict_get r ''command'' JNull,
      (let sub = dict_get r ''subcommand'' JNull in if truthy sub then sub else JStr []))"

definition history_pairs :: "store \<Rightarrow> (json \<times> json) set" where
  "history_pairs s = (\<lambda>r. (JStr (tr_command r), JStr (tr_subcommand r))) ` set (test_results s)"

definition declared_subcommand_pairs :: "(string \<times> json) list \<Rightarrow> (json \<times> json) set" where
  "declared_subcommand_pairs items =
     (\<Union>p \<in> set items. (\<lambda>q. (JStr (fst p), JStr (fst q))) ` set (subcommands_of (snd p)))"

definition described_base_pairs :: "(string \<times> json) list \<Rightarrow> (json \<times> json) set" where
  "described_base_pairs items =
     (\<lambda>p. (JStr (fst p), JStr [])) `
       {p \<in> set items. truthy (field (snd p) ''description'' JNull)}"

definition declared_base_pairs :: "(string \<times> json) list \<Rightarrow> (json \<times> json) set" where
  "declared_base_pairs items = (\<lambda>p. (JStr (fst p), JStr [])) ` set items"

text \<open>The records the reconciliation adds for one command, in closed form.\<close>

definition base_records :: "(json \<times> json) set \<Rightarrow> string \<Rightarrow> json \<Rightarrow> (string \<times> json) list list" where
  "base_records existing_pairs command cmd_data =
     (if (JStr command, JNull) \<notin> existing_pairs \<and> truthy (field cmd_data ''description'' JNull)
      then [untested_record (JStr command) JNull (field cmd_data ''description'' JNull)
              (field cmd_data ''aliases'' (JArr []))]
      else [])"

definition subcommand_record :: "string \<Rightarrow> string \<times> json \<Rightarrow> (string \<times> json) list" where
  "subcommand_record command q =
     untested_record (JStr command) (JStr (fst q)) (field (snd q) ''description'' (JStr []))
       (field (snd q) ''aliases'' (JArr []))"

definition subcommand_records ::
  "(json \<times> json) set \<Rightarrow> string \<Rightarrow> (string \<times> json) list \<Rightarrow> (string \<times> json) list list" where
  "subcommand_records existing_pairs command subs =
     map (subcommand_record command)
       (filter (\<lambda>q. (JStr command, JStr (fst q)) \<notin> existing_pairs) subs)"

definition added_records ::
  "(json \<times> json) set \<Rightarrow> (string \<times> json) list \<Rightarrow> (string \<times> json) list list" where
  "added_records existing_pairs items =
     concat (map (\<lambda>p. base_records existing_pairs (fst p) (snd p) @
                       subcommand_records existing_pairs (fst p) (subcommands_of (snd p)))
               items)"

text \<open>
  Documents as the extractor writes them: a command registered without a description,
  a command with one subcommand, and a command whose subcommand list ended in a comma
  and so has a subcommand with the empty name.
\<close>

definition mod_doc :: "(string \<times> json) list" where
  "mod_doc =
     [(''mod'', JObj [(''name'', JStr ''mod''), (''function'', JStr ''mod''),
        (''subcommands'', JObj [(''ban'', JObj [(''name'', JStr ''ban''),
           (''description'', JStr ''Ban a member''), (''aliases'', JArr [JStr ''b''])])]),
        (''description'', JStr []), (''aliases'', JArr [])])]"

definition ping_doc :: "(string \<times> json) list" where
  "ping_doc =
     [(''ping'', JObj [(''name'', JStr ''ping''), (''function'', JStr ''ping''),
        (''subcommands'', JObj []), (''description'', JStr []), (''aliases'', JArr [])])]"

definition trivia_doc :: "(string \<times> json) list" where
  "trivia_doc =
     [(''trivia'', JObj [(''name'', JStr ''trivia''), (''function'', JStr ''trivia''),
        (''subcommands'', JObj [(''start'', JObj [(''description'', JStr ''Start a round''),
             (''parameters'', JArr [])]),
           ([], JObj [(''description'', JStr []), (''parameters'', JArr [])])]),
        (''description'', JStr ''Play trivia''), (''aliases'', JArr [])])]"

text \<open>
  Two results for the base command \<^verbatim>\<open>ping\<close>, recorded within one second.
\<close>

definition ping_store :: store where
  "ping_store =
     (case record_test ''2024-03-01 10:00:00'' ''5f2a'' ''ping'' None
             (JStr ''failed'') (JStr []) [] 80 None empty_store of
        Inl e \<Rightarrow> empty_store
      | Inr s1 \<Rightarrow>
          (case record_test ''2024-03-01 10:00:00'' ''5f2a'' ''ping'' None
                  (JStr ''passed'') (JStr []) [] 75 None s1 of
             Inl e \<Rightarrow> s1
           | Inr s2 \<Rightarrow> s2))"

text \<open>
  A result for \<^verbatim>\<open>ping\<close> and one for \<^verbatim>\<open>mod ban\<close> recorded within one second, and a
  second result for \<^verbatim>\<open>ping\<close> a second later.
\<close>

definition stale_store :: store where
  "stale_store =
     (case record_test ''2024-03-01 10:00:04'' ''5f2a'' ''ping'' None
             (JStr ''failed'') (JStr []) [] 80 None empty_store of
        Inl e \<Rightarrow> empty_store
      | Inr s1 \<Rightarrow>
          (case record_test ''2024-03-01 10:00:04'' ''5f2a'' ''mod'' (Some ''ban'')
                  (JStr ''passed'') (JStr []) [] 60 None s1 of
             Inl e \<Rightarrow> s1
           | Inr s2 \<Rightarrow>
               (case record_test ''2024-03-01 10:00:05'' ''5f2a'' ''ping'' None
                       (JStr ''passed'') (JStr []) [] 75 None s2 of
                  Inl e \<Rightarrow> s2
                | Inr s3 \<Rightarrow> s3)))"

subsection \<open>Registry: notions and inputs of the statements\<close>

text \<open>
  What a row holds beside its two timestamps.  The keys a document writes: the base key
  of every command and the key of every subcommand; and the number of statements one
  pass over the document runs, one for each of these.
\<close>

definition entry_content :: "registry_entry \<Rightarrow> string option \<times> json \<times> bool" where
  "entry_content e = (cr_description e, cr_aliases e, cr_is_active e)"

definition commands_of :: "json \<Rightarrow> (string \<times> json) list" where
  "commands_of commands = (case commands of JObj items \<Rightarrow> items | _ \<Rightarrow> [])"

definition written_keys :: "json \<Rightarrow> (string \<times> string) set" where
  "written_keys commands =
     (\<Union>p \<in> set (commands_of commands).
        insert (fst p, []) ((\<lambda>q. (fst p, fst q)) ` set (subcommands_of (snd p))))"

definition statements :: "json \<Rightarrow> nat" where
  "statements commands =
     sum_list (map (\<lambda>p. Suc (length (subcommands_of (snd p)))) (commands_of commands))"

text \<open>
  The rows one pass over a document writes, in the order of the statements: key,
  description and aliases of each.
\<close>

fun subcommand_writes ::
  "(string \<Rightarrow> json) \<Rightarrow> string \<Rightarrow> (string \<times> json) list
     \<Rightarrow> error + ((string \<times> string) \<times> string option \<times> json) list" where
  "subcommand_writes numeric cmd_name [] = Inr []"
| "subcommand_writes numeric cmd_name ((subcmd_name, subcmd_info) # rest) =
     and_then (py_get subcmd_info ''description'' (JStr [])) (\<lambda>d.
     and_then (py_get subcmd_info ''aliases'' (JArr [])) (\<lambda>a.
     and_then (bind_text d) (\<lambda>d'.
     and_then (subcommand_writes numeric cmd_name rest) (\<lambda>ws.
       Inr (((cmd_name, subcmd_name), d', json_column numeric a) # ws)))))"

fun command_writes ::
  "(string \<Rightarrow> json) \<Rightarrow> (string \<times> json) list
     \<Rightarrow> error + ((string \<times> string) \<times> string option \<times> json) list" where
  "command_writes numeric [] = Inr []"
| "command_writes numeric ((cmd_name, cmd_info) # rest) =
     and_then (py_get cmd_info ''description'' (JStr [])) (\<lambda>d.
     and_then (py_get cmd_info ''aliases'' (JArr [])) (\<lambda>a.
     and_then (bind_text d) (\<lambda>d'.
     and_then (py_get cmd_info ''subcommands'' (JObj [])) (\<lambda>subs.
     and_then (py_items subs) (\<lambda>items.
     and_then (subcommand_writes numeric cmd_name items) (\<lambda>ws1.
     and_then (command_writes numeric rest) (\<lambda>ws2.
       Inr (((cmd_name, []), d', json_column numeric a) # ws1 @ ws2))))))))"

fun apply_writes ::
  "(nat \<Rightarrow> string) \<Rightarrow> nat \<Rightarrow> ((string \<times> string) \<times> string option \<times> json) list
     \<Rightarrow> (string \<times> string \<Rightarrow> registry_entry option)
     \<Rightarrow> (string \<times> string \<Rightarrow> registry_entry option)" where
  "apply_writes clock n [] reg = reg"
| "apply_writes clock n (w # ws) reg =
     apply_writes clock (Suc n) ws
       (insert_or_replace (clock n) (fst (fst w)) (snd (fst w)) (fst (snd w)) (snd (snd w)) reg)"

definition written_entry :: "string \<Rightarrow> string option \<times> json \<Rightarrow> registry_entry" where
  "written_entry now v =
     \<lparr>cr_description = fst v, cr_aliases = snd v, cr_discovered_at = now,
      cr_last_modified = now, cr_is_active = True\<rparr>"

text \<open>
  The registry after one and after two passes over \<open>mod_doc\<close>.  The first pass runs
  within one second; the second starts five seconds later and its second statement
  runs in the second after.  The aliases of \<open>mod_doc\<close> are lists, so no number is read
  back and \<open>no_number\<close> stands for the parameter.
\<close>

definition no_number :: "string \<Rightarrow> json" where
  "no_number t = JStr t"

definition first_pass :: "nat \<Rightarrow> string" where
  "first_pass n = ''2024-03-01 10:00:00''"

definition second_pass :: "nat \<Rightarrow> string" where
  "second_pass n = (if n = 0 then ''2024-03-01 10:00:05'' else ''2024-03-01 10:00:06'')"

definition registry_once :: store where
  "registry_once =
     (case update_command_registry no_number first_pass (JObj mod_doc) empty_store of
        Inl e \<Rightarrow> empty_store | Inr s \<Rightarrow> s)"

definition registry_twice :: store where
  "registry_twice =
     (case update_command_registry no_number second_pass (JObj mod_doc) registry_once of
        Inl e \<Rightarrow> registry_once | Inr s \<Rightarrow> s)"

subsection \<open>Migration: notions and inputs of the statements\<close>

text \<open>
  An info is imported when it is a dict with a \<^verbatim>\<open>status\<close> key.  The entries of a
  legacy document are its (command, subcommand, info) triples with a dict as the
  command's content and an imported info, in the order of the document; everything else
  is skipped.  \<open>without_skipped\<close> is the document with the skipped parts removed.
\<close>

definition imported_info :: "json \<Rightarrow> bool" where
  "imported_info info \<longleftrightarrow> (case info of JObj kvs \<Rightarrow> ''status'' \<in> fst ` set kvs | _ \<Rightarrow> False)"

definition subcommand_entries :: "string \<Rightarrow> (string \<times> json) list \<Rightarrow> (string \<times> string \<times> json) list" where
  "subcommand_entries command kvs =
     map (\<lambda>p. (command, fst p, snd p)) (filter (\<lambda>p. imported_info (snd p)) kvs)"

definition entries :: "(string \<times> json) list \<Rightarrow> (string \<times> string \<times> json) list" where
  "entries items =
     concat (map (\<lambda>p. case snd p of JObj kvs \<Rightarrow> subcommand_entries (fst p) kvs | _ \<Rightarrow> []) items)"

definition without_skipped :: "(string \<times> json) list \<Rightarrow> (string \<times> json) list" where
  "without_skipped items =
     map (\<lambda>p. (fst p, case snd p of JObj kvs \<Rightarrow> JObj (filter (\<lambda>q. imported_info (snd q)) kvs)
                              | v \<Rightarrow> v))
       (filter (\<lambda>p. is_dict (snd p)) items)"

text \<open>
  An entry can be stored when its status binds to a text and its notes bind; the row it
  becomes, given the time and the session.
\<close>

definition storable :: "string \<times> string \<times> json \<Rightarrow> bool" where
  "storable e \<longleftrightarrow>
     (case bind_text (field (snd (snd e)) ''status'' (JStr ''untested'')) of
        Inr (Some st) \<Rightarrow> True | _ \<Rightarrow> False) \<and>
     (case bind_text (field (snd (snd e)) ''notes'' (JStr [])) of
        Inr nt \<Rightarrow> True | _ \<Rightarrow> False)"

definition migrated_row :: "string \<Rightarrow> string \<Rightarrow> string \<times> string \<times> json \<Rightarrow> test_result" where
  "migrated_row now session_id e =
     \<lparr>tr_session_id = session_id, tr_command = fst e,
      tr_subcommand = (if fst (snd e) = ''_self'' then [] else fst (snd e)),
      tr_status = (case bind_text (field (snd (snd e)) ''status'' (JStr ''untested'')) of
                     Inr (Some st) \<Rightarrow> st | _ \<Rightarrow> []),
      tr_tested_at = now,
      tr_notes = (case bind_text (field (snd (snd e)) ''notes'' (JStr [])) of
                    Inr nt \<Rightarrow> nt | _ \<Rightarrow> None),
      tr_error_output = [], tr_execution_time_ms = 0,
      tr_metadata = dumps False (JObj [(''migrated'', JBool True)])\<rparr>"

fun migrated_rows ::
  "(nat \<Rightarrow> string) \<Rightarrow> string \<Rightarrow> nat \<Rightarrow> (string \<times> string \<times> json) list \<Rightarrow> test_result list" where
  "migrated_rows clock session_id n [] = []"
| "migrated_rows clock session_id n (e # es) =
     migrated_row (clock n) session_id e # migrated_rows clock session_id (Suc n) es"

text \<open>
  A legacy document with two entries and three parts that are skipped; a digest function
  for the examples (the statements hold for every digest function).
\<close>

definition legacy_doc :: "(string \<times> json) list" where
  "legacy_doc =
     [(''ping'', JObj [(''_self'', JObj [(''status'', JStr ''passed''), (''notes'', JStr ''ok'')])]),
      (''version'', JInt 2),
      (''mod'', JObj [(''ban'', JStr ''passed''),
                     (''kick'', JObj [(''notes'', JStr ''never run'')]),
                     (''mute'', JObj [(''status'', JStr ''failed'')])])]"

definition skipped_only_doc :: "(string \<times> json) list" where
  "skipped_only_doc =
     [(''version'', JInt 2),
      (''mod'', JObj [(''ban'', JStr ''passed''),
                     (''kick'', JObj [(''notes'', JStr ''never run'')])])]"

definition example_digest :: "string \<Rightarrow> string" where
  "example_digest text = rev text"

definition example_clock :: "nat \<Rightarrow> string" where
  "example_clock k = ''2024-03-02 09:00:0'' @ show_nat k"

subsection \<open>Snapshots: notions and inputs of the statements\<close>

text \<open>
  Two values have the same content when they differ at most in the order of the keys of
  their dicts; the keys of a dict are distinct, as in Python.
\<close>

function same_content :: "json \<Rightarrow> json \<Rightarrow> bool" where
  "same_content (JArr xs) (JArr ys) = list_all2 same_content xs ys"
| "same_content (JObj kvs) (JObj kvs') =
     (distinct (map fst kvs) \<and> distinct (map fst kvs') \<and> fst ` set kvs = fst ` set kvs' \<and>
      (\<forall>p \<in> set kvs. \<forall>q \<in> set kvs'. fst p = fst q \<longrightarrow> same_content (snd p) (snd q)))"
| "same_content JNull b = (b = JNull)"
| "same_content (JBool x) b = (b = JBool x)"
| "same_content (JInt i) b = (b = JInt i)"
| "same_content (JNum r t) b = (b = JNum r t)"
| "same_content (JStr t) b = (b = JStr t)"
| "same_content (JArr xs) JNull = False"
| "same_content (JArr xs) (JBool x) = False"
| "same_content (JArr xs) (JInt i) = False"
| "same_content (JArr xs) (JNum r t) = False"
| "same_content (JArr xs) (JStr t) = False"
| "same_content (JArr xs) (JObj kvs) = False"
| "same_content (JObj kvs) JNull = False"
| "same_content (JObj kvs) (JBool x) = False"
| "same_content (JObj kvs) (JInt i) = False"
| "same_content (JObj kvs) (JNum r t) = False"
| "same_content (JObj kvs) (JStr t) = False"
| "same_content (JObj kvs) (JArr xs) = False"
  by pat_completeness auto

termination same_content
proof (relation "measure (\<lambda>p. size (fst p))")
  fix kvs kvs' :: "(string \<times> json) list" and p q
  assume "p \<in> set kvs"
  then show "((snd p, snd q), JObj kvs, JObj kvs') \<in> measure (\<lambda>p. size (fst p))"
    using json_size_item [of "fst p" "snd p" kvs] by simp
qed (auto simp: json_size_elem)

text \<open>
  The checksum of the snapshot the last \<^verbatim>\<open>create_snapshot\<close> stored.  In the examples
  the results table is empty, so no average is printed.
\<close>

definition last_checksum :: "store \<Rightarrow> string option" where
  "last_checksum s =
     (case rev (test_snapshots s) of [] \<Rightarrow> None | sn # _ \<Rightarrow> Some (sn_checksum sn))"

definition no_avg :: "int list \<Rightarrow> string" where
  "no_avg ms = []"

definition snapshot_once :: "(string \<Rightarrow> string) \<Rightarrow> store" where
  "snapshot_once sha256 =
     (case create_snapshot sha256 no_avg ''2024-03-01T10:00:00.000123'' ''2024-03-01 10:00:00''
             ''2024-02-29 10:00:00'' ''before release'' Missing empty_store of
        Inl e \<Rightarrow> empty_store | Inr r \<Rightarrow> snd r)"

definition snapshot_twice :: "(string \<Rightarrow> string) \<Rightarrow> store" where
  "snapshot_twice sha256 =
     (case create_snapshot sha256 no_avg ''2024-03-01T10:00:00.000456'' ''2024-03-01 10:00:00''
             ''2024-02-29 10:00:00'' ''before release'' Missing (snapshot_once sha256) of
        Inl e \<Rightarrow> snapshot_once sha256 | Inr r \<Rightarrow> snd r)"

text \<open>One dict built in two orders, as a recorded row and a synthesized record are.\<close>

definition row_keys_first :: json where
  "row_keys_first =
     JObj [(''results'', JArr [JObj [(''command'', JStr ''ping''), (''status'', JStr ''passed'')]]),
           (''timestamp'', JStr ''2024-03-01T10:00:00.000123'')]"

definition row_keys_second :: json where
  "row_keys_second =
     JObj [(''timestamp'', JStr ''2024-03-01T10:00:00.000123''),
           (''results'', JArr [JObj [(''status'', JStr ''passed''), (''command'', JStr ''ping'')]])]"

subsection \<open>Backups: notions and inputs of the statements\<close>

abbreviation mtime_of :: "string \<times> backup_file \<Rightarrow> nat" where
  "mtime_of p \<equiv> bf_mtime (snd p)"

text \<open>The backups that keeping ten removes from a listing: the oldest ones.\<close>

definition pruned :: "(string \<times> backup_file) list \<Rightarrow> (string \<times> backup_file) list" where
  "pruned d = take (length d - 10) (sort_key mtime_of d)"

text \<open>Nightly backups, one for each day \<open>n\<close> of January 2024, all of an empty store.\<close>

definition nightly :: "nat \<Rightarrow> string \<times> backup_file" where
  "nightly n = (backup_name ''auto'' (''202401'' @ show_nat n @ ''_030000''),
                \<lparr>bf_mtime = n, bf_image = empty_store\<rparr>)"

definition ten_backups :: files where
  "ten_backups = \<lparr>db = empty_store, backups = map nightly [10..<20], outside = Map.empty\<rparr>"

definition eleven_backups :: files where
  "eleven_backups = \<lparr>db = empty_store, backups = map nightly [10..<21], outside = Map.empty\<rparr>"

definition no_backups :: files where
  "no_backups = \<lparr>db = empty_store, backups = [], outside = Map.empty\<rparr>"

text \<open>Fifteen manual backups, one a second, and fifteen within one second.\<close>

definition fifteen_calls :: "(string \<times> string \<times> nat) list" where
  "fifteen_calls =
     map (\<lambda>n. (''manual'', ''20240201_1200'' @ show_nat n, 100 + n)) [10..<25]"

definition fifteen_calls_one_second :: "(string \<times> string \<times> nat) list" where
  "fifteen_calls_one_second = replicate 15 (''manual'', ''20240201_120000'', 100)"

section \<open>Properties of the latest-status query\<close>

lemma set_insert_desc: "set (insert_desc x ys) = insert x (set ys)"
  by (induction ys) auto

lemma set_order_by: "set (order_by_tested_at_desc rows) = set rows"
  by (induction rows) (auto simp: order_by_tested_at_desc_def set_insert_desc)

lemma sorted_insert_desc:
  "sorted_wrt (\<lambda>a b. tr_tested_at b \<le> tr_tested_at a) ys \<Longrightarrow>
   sorted_wrt (\<lambda>a b. tr_tested_at b \<le> tr_tested_at a) (insert_desc x ys)"
  by (induction ys) (auto simp: set_insert_desc)

lemma sorted_order_by:
  "sorted_wrt (\<lambda>a b. tr_tested_at b \<le> tr_tested_at a) (order_by_tested_at_desc rows)"
  by (induction rows) (auto simp: order_by_tested_at_desc_def sorted_insert_desc)

lemma fetchone_latest:
  assumes "fetchone (take 1 (order_by_tested_at_desc rows)) = Some r"
  shows "r \<in> set rows \<and> (\<forall>r' \<in> set rows. tr_tested_at r' \<le> tr_tested_at r)"
proof -
  from assms obtain rest where o: "order_by_tested_at_desc rows = r # rest"
    by (cases "order_by_tested_at_desc rows") (auto simp: fetchone_def)
  then have "r \<in> set rows" by (metis list.set_intros(1) set_order_by)
  moreover have "tr_tested_at r' \<le> tr_tested_at r" if "r' \<in> set rows" for r'
  proof -
    from that have "r' \<in> set (r # rest)" by (simp add: set_order_by flip: o)
    moreover have "sorted_wrt (\<lambda>a b. tr_tested_at b \<le> tr_tested_at a) (r # rest)"
      using sorted_order_by [of rows] by (simp add: o)
    ultimately show ?thesis by auto
  qed
  ultimately show ?thesis by blast
qed

lemma fetchone_none: "fetchone (take 1 (order_by_tested_at_desc rows)) = None \<longleftrightarrow> rows = []"
proof
  assume "fetchone (take 1 (order_by_tested_at_desc rows)) = None"
  then have "order_by_tested_at_desc rows = []"
    by (cases "order_by_tested_at_desc rows") (auto simp: fetchone_def)
  then show "rows = []" by (metis set_empty set_order_by)
qed (simp add: fetchone_def order_by_tested_at_desc_def)

text \<open>
  Claim C2.  In every store, and so after every sequence of \<^verbatim>\<open>record_test\<close> calls,
  \<^verbatim>\<open>get_test_status\<close> returns the default record when the pair has no row, and
  otherwise the status record of a stored row of the pair whose \<^verbatim>\<open>tested_at\<close> no row of
  the pair exceeds.  Which of several rows with the greatest \<^verbatim>\<open>tested_at\<close> it is, the
  statement leaves open.
\<close>

theorem get_test_status_latest:
  "(\<not> (\<exists>r \<in> set (test_results s). matches command subcommand r) \<longrightarrow>
      get_test_status command subcommand s = JObj [(''status'', JStr ''untested'')]) \<and>
   ((\<exists>r \<in> set (test_results s). matches command subcommand r) \<longrightarrow>
      (\<exists>r \<in> set (test_results s).
         matches command subcommand r \<and>
         get_test_status command subcommand s = status_record r \<and>
         (\<forall>r' \<in> set (test_results s).
            matches command subcommand r' \<longrightarrow> tr_tested_at r' \<le> tr_tested_at r)))"
proof -
  let ?rows = "filter (\<lambda>r. tr_command r = command \<and> tr_subcommand r = or_empty subcommand)
                 (test_results s)"
  show ?thesis
  proof (cases "fetchone (take 1 (order_by_tested_at_desc ?rows))")
    case None
    then have "?rows = []" by (rule fetchone_none [THEN iffD1])
    then have "\<not> (\<exists>r \<in> set (test_results s). matches command subcommand r)"
      by (auto simp: filter_empty_conv matches_def)
    with None show ?thesis by (simp add: get_test_status_def)
  next
    case (Some r)
    from fetchone_latest [OF Some]
    have "r \<in> set (test_results s)" "matches command subcommand r"
      "\<forall>r' \<in> set (test_results s).
         matches command subcommand r' \<longrightarrow> tr_tested_at r' \<le> tr_tested_at r"
      by (auto simp: matches_def)
    moreover from Some have "get_test_status command subcommand s = status_record r"
      by (simp add: get_test_status_def)
    ultimately show ?thesis by blast
  qed
qed

lemma trivia_rows:
  "test_results trivia_store =
     [\<lparr>tr_session_id = ''5f2a'', tr_command = ''trivia'', tr_subcommand = [],
       tr_status = ''passed'', tr_tested_at = ''2024-03-01 10:00:00'', tr_notes = Some [],
       tr_error_output = [], tr_execution_time_ms = 120, tr_metadata = ''{}''\<rparr>,
      \<lparr>tr_session_id = ''5f2a'', tr_command = ''trivia'', tr_subcommand = [],
       tr_status = ''failed'', tr_tested_at = ''2024-03-01 10:05:00'',
       tr_notes = Some ''timeout'', tr_error_output = [], tr_execution_time_ms = 0,
       tr_metadata = ''{}''\<rparr>]"
  by (simp add: trivia_store_def record_test_def and_then_def bind_integer_def not_null_def
    empty_store_def or_empty_def)

theorem get_test_status_latest_witness:
  "(\<exists>r \<in> set (test_results trivia_store). matches ''trivia'' None r) \<and>
   get_test_status ''trivia'' None trivia_store =
     JObj [(''status'', JStr ''failed''), (''last_tested'', JStr ''2024-03-01 10:05:00''),
           (''notes'', JStr ''timeout''), (''error_output'', JStr []),
           (''execution_time_ms'', JInt 0)] \<and>
   get_test_status ''quiz'' None trivia_store = JObj [(''status'', JStr ''untested'')]"
proof -
  have m: "\<exists>r \<in> set (test_results trivia_store). matches ''trivia'' None r"
    by (simp add: trivia_rows matches_def or_empty_def)
  have n: "\<not> (\<exists>r \<in> set (test_results trivia_store). matches ''quiz'' None r)"
    by (simp add: trivia_rows matches_def or_empty_def)
  from get_test_status_latest [of trivia_store "''trivia''" None] m
  obtain r where r: "r \<in> set (test_results trivia_store)"
    "get_test_status ''trivia'' None trivia_store = status_record r"
    "\<forall>r' \<in> set (test_results trivia_store).
       matches ''trivia'' None r' \<longrightarrow> tr_tested_at r' \<le> tr_tested_at r"
    by blast
  from r(1,3) have "tr_status r = ''failed'' \<and> tr_tested_at r = ''2024-03-01 10:05:00'' \<and>
     tr_notes r = Some ''timeout'' \<and> tr_error_output r = [] \<and> tr_execution_time_ms r = 0"
    by (auto simp: trivia_rows matches_def or_empty_def)
  with r(2) m n get_test_status_latest [of trivia_store "''quiz''" None]
  show ?thesis by (simp add: status_record_def text_value_def)
qed

section \<open>Properties of the merged result list\<close>

lemma py_get_field: "is_dict v \<Longrightarrow> py_get v k d = Inr (field v k d)"
  by (cases v) (auto simp: field_def)

lemma add_subcommands_closed:
  "list_all (\<lambda>p. is_dict (snd p)) subs \<Longrightarrow>
   add_subcommands ep c subs results = Inr (results @ subcommand_records ep c subs)"
proof (induction subs arbitrary: results)
  case Nil
  then show ?case by (simp add: subcommand_records_def)
next
  case (Cons q subs)
  obtain sn sd where q: "q = (sn, sd)" by (cases q)
  with Cons.prems have "is_dict sd" "list_all (\<lambda>p. is_dict (snd p)) subs" by simp_all
  then show ?case
    using Cons.IH by (simp add: q py_get_field and_then_def subcommand_records_def
      subcommand_record_def)
qed

lemma add_base_command_closed:
  "is_dict cd \<Longrightarrow> add_base_command ep c cd results = Inr (results @ base_records ep c cd)"
  by (simp add: add_base_command_def base_records_def py_get_field and_then_def)

lemma add_commands_closed:
  "wf_doc items \<Longrightarrow> add_commands ep items results = Inr (results @ added_records ep items)"
proof (induction items arbitrary: results)
  case Nil
  then show ?case by (simp add: added_records_def)
next
  case (Cons p items)
  obtain c cd where p: "p = (c, cd)" by (cases p)
  with Cons.prems have wf: "is_dict cd" "is_dict (field cd ''subcommands'' (JObj []))"
    "list_all (\<lambda>p. is_dict (snd p)) (subcommands_of cd)" "wf_doc items"
    by (simp_all add: wf_doc_def wf_command_def)
  have 1: "py_get cd ''subcommands'' (JObj []) = Inr (field cd ''subcommands'' (JObj []))"
    using wf(1) by (rule py_get_field)
  have 2: "py_items (field cd ''subcommands'' (JObj [])) = Inr (subcommands_of cd)"
    using wf(2) by (cases "field cd ''subcommands'' (JObj [])") (auto simp: subcommands_of_def)
  have 3: "added_records ep (p # items) =
      base_records ep c cd @ subcommand_records ep c (subcommands_of cd) @ added_records ep items"
    by (simp add: added_records_def p)
  show ?case
    by (simp add: p add_base_command_closed [OF wf(1)] 1 2 3 [unfolded p]
        add_subcommands_closed [OF wf(3)] Cons.IH [OF wf(4)] and_then_def)
qed

lemma get_all_test_results_closed:
  "wf_doc items \<Longrightarrow>
   get_all_test_results (Loaded (JObj items)) s =
     Inr (select_latest s @ added_records (existing_pairs_of (select_latest s)) items)"
  by (simp add: get_all_test_results_def integrate_with_discovered_commands_def
    and_then_def add_commands_closed)

lemma fold_max_in: "fold max ts (t :: string) \<in> set (t # ts)"
  by (induction ts arbitrary: t) (auto simp: max_def)

lemma sql_max_in: "ts \<noteq> [] \<Longrightarrow> \<exists>m \<in> set ts. sql_max ts = Some m"
  using fold_max_in by (cases ts) auto

lemma keys_latest_rows: "result_key ` set (latest_rows rows) = result_key ` set rows"
proof
  show "result_key ` set (latest_rows rows) \<subseteq> result_key ` set rows"
    by (auto simp: latest_rows_def)
next
  show "result_key ` set rows \<subseteq> result_key ` set (latest_rows rows)"
  proof
    fix k assume "k \<in> result_key ` set rows"
    then obtain r where r: "r \<in> set rows" "result_key r = k" by auto
    let ?g = "filter (\<lambda>r. result_key r = k) rows"
    from r have "map tr_tested_at ?g \<noteq> []" by (auto simp: filter_empty_conv)
    from sql_max_in [OF this] obtain r' where r': "r' \<in> set rows" "result_key r' = k"
      "sql_max (map tr_tested_at ?g) = Some (tr_tested_at r')" by auto
    from r have "k \<in> set (remdups (map result_key rows))" by auto
    then have "sql_max (map tr_tested_at ?g) \<in> set (group_maxima rows)"
      by (auto simp: group_maxima_def intro!: image_eqI [where x = k])
    with r' have "r' \<in> set (latest_rows rows)" by (simp add: latest_rows_def)
    with r'(2) show "k \<in> result_key ` set (latest_rows rows)" by auto
  qed
qed

lemma pair_of_record_result_row:
  "pair_of_record (result_row reg r) = (JStr (tr_command r), JStr (tr_subcommand r))"
  by (simp add: pair_of_record_def result_row_def dict_get_def)

lemma pair_of_result_result_row:
  "pair_of_result (result_row reg r) =
     (JStr (tr_command r), if tr_subcommand r = [] then JNull else JStr (tr_subcommand r))"
  by (simp add: pair_of_result_def result_row_def dict_get_def)

lemma set_select_latest:
  "set (select_latest s) = result_row (command_registry s) ` set (latest_rows (test_results s))"
  by (simp add: select_latest_def)

lemma history_pairs_keys:
  "(JStr c, JStr sub) \<in> history_pairs s \<longleftrightarrow> (c, sub) \<in> result_key ` set (test_results s)"
  by (auto simp: history_pairs_def result_key_def)

lemma pairs_select_latest: "pair_of_record ` set (select_latest s) = history_pairs s"
proof -
  have "pair_of_record ` set (select_latest s) =
      (\<lambda>k. (JStr (fst k), JStr (snd k))) ` result_key ` set (latest_rows (test_results s))"
    by (simp add: set_select_latest image_image pair_of_record_result_row result_key_def)
  also have "\<dots> = (\<lambda>k. (JStr (fst k), JStr (snd k))) ` result_key ` set (test_results s)"
    by (simp only: keys_latest_rows)
  also have "\<dots> = history_pairs s"
    by (simp add: history_pairs_def image_image result_key_def)
  finally show ?thesis .
qed

lemma existing_base:
  "(JStr c, JNull) \<in> existing_pairs_of (select_latest s) \<longleftrightarrow>
     (JStr c, JStr []) \<in> history_pairs s"
proof -
  have "(JStr c, JNull) \<in> existing_pairs_of (select_latest s) \<longleftrightarrow>
      (c, []) \<in> result_key ` set (latest_rows (test_results s))"
    by (auto simp: existing_pairs_of_def set_select_latest pair_of_result_result_row
      result_key_def image_iff split: if_splits)
  then show ?thesis by (simp add: keys_latest_rows history_pairs_keys)
qed

lemma existing_sub:
  "(JStr c, JStr sn) \<in> existing_pairs_of (select_latest s) \<longleftrightarrow>
     sn \<noteq> [] \<and> (JStr c, JStr sn) \<in> history_pairs s"
proof -
  have "(JStr c, JStr sn) \<in> existing_pairs_of (select_latest s) \<longleftrightarrow>
      sn \<noteq> [] \<and> (c, sn) \<in> result_key ` set (latest_rows (test_results s))"
    by (auto simp: existing_pairs_of_def set_select_latest pair_of_result_result_row
      result_key_def image_iff split: if_splits)
  then show ?thesis by (simp add: keys_latest_rows history_pairs_keys)
qed

lemma pair_of_untested [simp]:
  "pair_of_record (untested_record (JStr c) JNull d a) = (JStr c, JStr [])"
  "pair_of_record (subcommand_record c q) = (JStr c, JStr (fst q))"
  by (auto simp: pair_of_record_def untested_record_def subcommand_record_def dict_get_def)

lemma set_added_records:
  "set (added_records ep items) =
     (\<Union>p \<in> set items. set (base_records ep (fst p) (snd p)) \<union>
        subcommand_record (fst p) ` {q \<in> set (subcommands_of (snd p)).
                                       (JStr (fst p), JStr (fst q)) \<notin> ep})"
  by (auto simp: added_records_def subcommand_records_def)

lemma wf_examples: "wf_doc mod_doc" "wf_doc ping_doc" "wf_doc trivia_doc"
  by (simp_all add: wf_doc_def wf_command_def mod_doc_def ping_doc_def trivia_doc_def
    field_def dict_get_def subcommands_of_def)

lemma select_latest_empty: "select_latest empty_store = []"
  by (simp add: select_latest_def empty_store_def latest_rows_def)

lemma pairs_all:
  "pair_of_record ` set (select_latest s @ added_records (existing_pairs_of (select_latest s)) items) =
     history_pairs s \<union> declared_subcommand_pairs items \<union> described_base_pairs items"
proof -
  let ?ep = "existing_pairs_of (select_latest s)"
  have "pair_of_record ` set (added_records ?ep items) \<union> history_pairs s =
      history_pairs s \<union> declared_subcommand_pairs items \<union> described_base_pairs items"
    (is "?A \<union> ?H = ?H \<union> ?S \<union> ?B")
  proof (intro equalityI subsetI)
    fix x assume "x \<in> ?A \<union> ?H"
    then consider (hist) "x \<in> ?H"
      | (base) p where "p \<in> set items" "truthy (field (snd p) ''description'' JNull)"
          "x = (JStr (fst p), JStr [])"
      | (sub) p q where "p \<in> set items" "q \<in> set (subcommands_of (snd p))"
          "x = (JStr (fst p), JStr (fst q))"
      by (auto simp: set_added_records base_records_def split: if_splits)
    then show "x \<in> ?H \<union> ?S \<union> ?B"
    proof cases
      case hist
      then show ?thesis by simp
    next
      case base
      then have "x \<in> ?B" unfolding described_base_pairs_def by blast
      then show ?thesis by simp
    next
      case sub
      then have "x \<in> ?S" unfolding declared_subcommand_pairs_def by blast
      then show ?thesis by simp
    qed
  next
    fix x assume x: "x \<in> ?H \<union> ?S \<union> ?B"
    show "x \<in> ?A \<union> ?H"
    proof (cases "x \<in> ?H")
      case True
      then show ?thesis by simp
    next
      case False
      with x consider (sub) "x \<in> ?S" | (base) "x \<in> ?B" by blast
      then have "x \<in> ?A"
      proof cases
        case sub
        then obtain p q where pq: "p \<in> set items" "q \<in> set (subcommands_of (snd p))"
          "x = (JStr (fst p), JStr (fst q))" by (auto simp: declared_subcommand_pairs_def)
        with False have "(JStr (fst p), JStr (fst q)) \<notin> ?ep" by (simp add: existing_sub)
        with pq(1,2) have "subcommand_record (fst p) q \<in> set (added_records ?ep items)"
          by (auto simp: set_added_records)
        then have "pair_of_record (subcommand_record (fst p) q) \<in> ?A" by (rule imageI)
        with pq(3) show ?thesis by simp
      next
        case base
        then obtain p where p: "p \<in> set items" "truthy (field (snd p) ''description'' JNull)"
          "x = (JStr (fst p), JStr [])" by (auto simp: described_base_pairs_def)
        with False have "(JStr (fst p), JNull) \<notin> ?ep" by (simp add: existing_base)
        with p(1,2) have "untested_record (JStr (fst p)) JNull
            (field (snd p) ''description'' JNull) (field (snd p) ''aliases'' (JArr []))
            \<in> set (added_records ?ep items)"
          by (auto simp: set_added_records base_records_def)
        then have "pair_of_record (untested_record (JStr (fst p)) JNull
            (field (snd p) ''description'' JNull) (field (snd p) ''aliases'' (JArr []))) \<in> ?A"
          by (rule imageI)
        with p(3) show ?thesis by simp
      qed
      then show ?thesis by simp
    qed
  qed
  then show ?thesis by (simp add: image_Un pairs_select_latest Un_commute)
qed

lemma ping_rows:
  "test_results ping_store =
     [\<lparr>tr_session_id = ''5f2a'', tr_command = ''ping'', tr_subcommand = [],
       tr_status = ''failed'', tr_tested_at = ''2024-03-01 10:00:00'', tr_notes = Some [],
       tr_error_output = [], tr_execution_time_ms = 80, tr_metadata = ''{}''\<rparr>,
      \<lparr>tr_session_id = ''5f2a'', tr_command = ''ping'', tr_subcommand = [],
       tr_status = ''passed'', tr_tested_at = ''2024-03-01 10:00:00'', tr_notes = Some [],
       tr_error_output = [], tr_execution_time_ms = 75, tr_metadata = ''{}''\<rparr>]"
  by (simp add: ping_store_def record_test_def and_then_def bind_integer_def not_null_def
    empty_store_def or_empty_def)

lemma stale_rows:
  "test_results stale_store =
     [\<lparr>tr_session_id = ''5f2a'', tr_command = ''ping'', tr_subcommand = [],
       tr_status = ''failed'', tr_tested_at = ''2024-03-01 10:00:04'', tr_notes = Some [],
       tr_error_output = [], tr_execution_time_ms = 80, tr_metadata = ''{}''\<rparr>,
      \<lparr>tr_session_id = ''5f2a'', tr_command = ''mod'', tr_subcommand = ''ban'',
       tr_status = ''passed'', tr_tested_at = ''2024-03-01 10:00:04'', tr_notes = Some [],
       tr_error_output = [], tr_execution_time_ms = 60, tr_metadata = ''{}''\<rparr>,
      \<lparr>tr_session_id = ''5f2a'', tr_command = ''ping'', tr_subcommand = [],
       tr_status = ''passed'', tr_tested_at = ''2024-03-01 10:00:05'', tr_notes = Some [],
       tr_error_output = [], tr_execution_time_ms = 75, tr_metadata = ''{}''\<rparr>]"
  by (simp add: stale_store_def record_test_def and_then_def bind_integer_def not_null_def
    empty_store_def or_empty_def)

text \<open>
  Claim C1, as the code has it.  When the discovered-commands file is absent or
  unreadable the pairs of the returned records are the pairs of the recorded results.
  For a well-formed document they are the pairs of the recorded results, the pairs the
  document declares as subcommands, and the base pairs of its commands whose
  description is true: a command without a description and without a recorded result
  gets no record.  An exception of reading the file that the reconciliation does not
  catch leaves the query.
\<close>

theorem all_results_pairs:
  "(discovered = Missing \<or> discovered = Unreadable \<longrightarrow>
      (\<exists>rs. get_all_test_results discovered s = Inr rs \<and>
            pair_of_record ` set rs = history_pairs s)) \<and>
   (wf_doc items \<longrightarrow>
      (\<exists>rs. get_all_test_results (Loaded (JObj items)) s = Inr rs \<and>
            pair_of_record ` set rs =
              history_pairs s \<union> declared_subcommand_pairs items \<union> described_base_pairs items)) \<and>
   get_all_test_results (Failing e) s = Inl e"
proof (intro conjI impI)
  assume "discovered = Missing \<or> discovered = Unreadable"
  then have "get_all_test_results discovered s = Inr (select_latest s)"
    by (auto simp: get_all_test_results_def integrate_with_discovered_commands_def)
  then show "\<exists>rs. get_all_test_results discovered s = Inr rs \<and>
      pair_of_record ` set rs = history_pairs s"
    by (simp add: pairs_select_latest)
next
  let ?rs = "select_latest s @ added_records (existing_pairs_of (select_latest s)) items"
  assume "wf_doc items"
  then have "get_all_test_results (Loaded (JObj items)) s = Inr ?rs"
    by (rule get_all_test_results_closed)
  moreover have "pair_of_record ` set ?rs =
      history_pairs s \<union> declared_subcommand_pairs items \<union> described_base_pairs items"
    by (rule pairs_all)
  ultimately show "\<exists>rs. get_all_test_results (Loaded (JObj items)) s = Inr rs \<and>
      pair_of_record ` set rs =
        history_pairs s \<union> declared_subcommand_pairs items \<union> described_base_pairs items"
    by blast
next
  show "get_all_test_results (Failing e) s = Inl e"
    by (simp add: get_all_test_results_def integrate_with_discovered_commands_def)
qed

theorem all_results_pairs_witness:
  "wf_doc mod_doc \<and>
   (\<exists>rs. get_all_test_results (Loaded (JObj mod_doc)) trivia_store = Inr rs \<and>
      pair_of_record ` set rs =
        {(JStr ''mod'', JStr ''ban''), (JStr ''trivia'', JStr [])}) \<and>
   (\<exists>rs. get_all_test_results Missing trivia_store = Inr rs \<and>
      pair_of_record ` set rs = {(JStr ''trivia'', JStr [])})"
proof -
  have h: "history_pairs trivia_store = {(JStr ''trivia'', JStr [])}"
    by (simp add: history_pairs_def trivia_rows)
  have d: "declared_subcommand_pairs mod_doc = {(JStr ''mod'', JStr ''ban'')}"
    "described_base_pairs mod_doc = {}"
    by (simp_all add: declared_subcommand_pairs_def described_base_pairs_def mod_doc_def
      subcommands_of_def field_def dict_get_def)
  from all_results_pairs [of Missing trivia_store mod_doc] wf_examples(1) h d
  show ?thesis by simp
qed

text \<open>
  Claim C1 as stated fails in both parts.  A command the extractor registered without a
  description is declared by the document and gets no record: with nothing recorded the
  list is empty.  And a pair can have two records.  Two results recorded for one pair
  within one second both have the greatest \<^verbatim>\<open>tested_at\<close> of the pair, so the list
  holds both; and an older result of a pair stays in the list when its \<^verbatim>\<open>tested_at\<close>
  is the greatest of another pair, so \<^verbatim>\<open>ping\<close> is listed as failed and as passed.
\<close>

theorem all_results_pairs_counterexample:
  "get_all_test_results (Loaded (JObj ping_doc)) empty_store = Inr [] \<and>
   (JStr ''ping'', JStr []) \<in> declared_base_pairs ping_doc \<and>
   map_sum id (map pair_of_record) (get_all_test_results Missing ping_store) =
     Inr [(JStr ''ping'', JStr []), (JStr ''ping'', JStr [])] \<and>
   map_sum id (map (\<lambda>r. (pair_of_record r, dict_get r ''status'' JNull,
                          dict_get r ''tested_at'' JNull)))
       (get_all_test_results Missing stale_store) =
     Inr [((JStr ''mod'', JStr ''ban''), JStr ''passed'', JStr ''2024-03-01 10:00:04''),
          ((JStr ''ping'', JStr []), JStr ''failed'', JStr ''2024-03-01 10:00:04''),
          ((JStr ''ping'', JStr []), JStr ''passed'', JStr ''2024-03-01 10:00:05'')]"
proof -
  have "get_all_test_results (Loaded (JObj ping_doc)) empty_store = Inr []"
    using get_all_test_results_closed [OF wf_examples(2), of empty_store]
    by (simp add: select_latest_empty added_records_def base_records_def
      subcommand_records_def ping_doc_def field_def dict_get_def subcommands_of_def)
  moreover have "(JStr ''ping'', JStr []) \<in> declared_base_pairs ping_doc"
    by (simp add: declared_base_pairs_def ping_doc_def)
  moreover have "map_sum id (map pair_of_record) (get_all_test_results Missing ping_store) =
     Inr [(JStr ''ping'', JStr []), (JStr ''ping'', JStr [])]"
    by (simp add: get_all_test_results_def integrate_with_discovered_commands_def
      select_latest_def ping_rows latest_rows_def group_maxima_def result_key_def
      pair_of_record_result_row)
  moreover have "map_sum id (map (\<lambda>r. (pair_of_record r, dict_get r ''status'' JNull,
                          dict_get r ''tested_at'' JNull)))
       (get_all_test_results Missing stale_store) =
     Inr [((JStr ''mod'', JStr ''ban''), JStr ''passed'', JStr ''2024-03-01 10:00:04''),
          ((JStr ''ping'', JStr []), JStr ''failed'', JStr ''2024-03-01 10:00:04''),
          ((JStr ''ping'', JStr []), JStr ''passed'', JStr ''2024-03-01 10:00:05'')]"
    by (simp add: get_all_test_results_def integrate_with_discovered_commands_def
      select_latest_def stale_rows latest_rows_def group_maxima_def result_key_def
      pair_of_record_def result_row_def dict_get_def max_def)
  ultimately show ?thesis by simp
qed

lemma create_snapshot_effect:
  assumes "get_all_test_results discovered s = Inr rs"
  shows "\<exists>n s'. create_snapshot sha256 avg_repr timestamp now day_ago description discovered s =
             Inr (n, s') \<and>
     test_results s' = test_results s \<and> command_registry s' = command_registry s \<and>
     test_sessions s' = test_sessions s \<and>
     map sn_snapshot_data (test_snapshots s') =
       map sn_snapshot_data (test_snapshots s) @
         [dumps False
            (JObj [(''timestamp'', JStr timestamp), (''results'', JArr (map JObj rs)),
                   (''statistics'', get_statistics avg_repr day_ago s)])]"
  using assms
  by (simp add: create_snapshot_def and_then_def Let_def snapshot_data_of_def)

lemma base_record_command:
  assumes "r \<in> set (select_latest s @ added_records ep items)"
      and "dict_get r ''subcommand'' JNull = JNull"
  shows "\<exists>p \<in> set items. dict_get r ''command'' JNull = JStr (fst p) \<and>
           truthy (field (snd p) ''description'' JNull)"
proof -
  from assms(1) consider "r \<in> set (select_latest s)" | "r \<in> set (added_records ep items)"
    by auto
  then show ?thesis
  proof cases
    case 1
    with assms(2) show ?thesis
      by (auto simp: set_select_latest result_row_def dict_get_def)
  next
    case 2
    then obtain p where p: "p \<in> set items"
      "r \<in> set (base_records ep (fst p) (snd p)) \<or>
       r \<in> subcommand_record (fst p) ` set (subcommands_of (snd p))"
      by (auto simp: set_added_records)
    from p(2) assms(2) have "r \<in> set (base_records ep (fst p) (snd p))"
      by (auto simp: subcommand_record_def untested_record_def dict_get_def)
    then have "dict_get r ''command'' JNull = JStr (fst p) \<and>
        truthy (field (snd p) ''description'' JNull)"
      by (auto simp: base_records_def untested_record_def dict_get_def split: if_splits)
    with p(1) show ?thesis by blast
  qed
qed

text \<open>
  Claim C3, as the code has it.  For a well-formed document the query returns, and for
  every declared subcommand without a recorded result the list holds the record with
  status \<^verbatim>\<open>untested\<close>, \<^verbatim>\<open>tested_at\<close> \<^verbatim>\<open>Never\<close> and the description and aliases of
  the document (the empty string and the empty list where the document has none).  The
  same holds, with subcommand None, for the base command of every declared command that
  has no recorded result and a true description.  A command that the document does not
  declare with a true description has no record with subcommand None: its base command
  is not synthesized.  The query is a function of the store and writes nothing;
  \<^verbatim>\<open>create_snapshot\<close>, which takes the list from the query, adds one snapshot row
  whose data is the serialised list, synthesized records included, and leaves the
  results, the registry and the sessions as they were.
\<close>

theorem untested_synthesis:
  assumes "wf_doc items"
  shows "\<exists>rs. get_all_test_results (Loaded (JObj items)) s = Inr rs \<and>
     (\<forall>p \<in> set items. \<forall>q \<in> set (subcommands_of (snd p)).
        (JStr (fst p), JStr (fst q)) \<notin> history_pairs s \<longrightarrow>
          [(''command'', JStr (fst p)), (''subcommand'', JStr (fst q)),
           (''status'', JStr ''untested''), (''tested_at'', JStr ''Never''),
           (''notes'', JStr []),
           (''description'', field (snd q) ''description'' (JStr [])),
           (''aliases'', field (snd q) ''aliases'' (JArr [])),
           (''error_output'', JNull), (''execution_time_ms'', JNull)] \<in> set rs) \<and>
     (\<forall>p \<in> set items.
        truthy (field (snd p) ''description'' JNull) \<and>
        (JStr (fst p), JStr []) \<notin> history_pairs s \<longrightarrow>
          [(''command'', JStr (fst p)), (''subcommand'', JNull),
           (''status'', JStr ''untested''), (''tested_at'', JStr ''Never''),
           (''notes'', JStr []),
           (''description'', field (snd p) ''description'' JNull),
           (''aliases'', field (snd p) ''aliases'' (JArr [])),
           (''error_output'', JNull), (''execution_time_ms'', JNull)] \<in> set rs) \<and>
     (\<forall>c. (\<forall>p \<in> set items. fst p = c \<longrightarrow> \<not> truthy (field (snd p) ''description'' JNull)) \<longrightarrow>
          (\<forall>r \<in> set rs. dict_get r ''command'' JNull = JStr c \<longrightarrow>
                         dict_get r ''subcommand'' JNull \<noteq> JNull)) \<and>
     (\<exists>n s'. create_snapshot sha256 avg_repr timestamp now day_ago description
                (Loaded (JObj items)) s = Inr (n, s') \<and>
          test_results s' = test_results s \<and> command_registry s' = command_registry s \<and>
          test_sessions s' = test_sessions s \<and>
          map sn_snapshot_data (test_snapshots s') =
            map sn_snapshot_data (test_snapshots s) @
              [dumps False
                 (JObj [(''timestamp'', JStr timestamp), (''results'', JArr (map JObj rs)),
                        (''statistics'', get_statistics avg_repr day_ago s)])])"
proof -
  let ?ep = "existing_pairs_of (select_latest s)"
  let ?rs = "select_latest s @ added_records ?ep items"
  from assms have eq: "get_all_test_results (Loaded (JObj items)) s = Inr ?rs"
    by (rule get_all_test_results_closed)
  have sub: "subcommand_record (fst p) q \<in> set ?rs"
    if "p \<in> set items" "q \<in> set (subcommands_of (snd p))"
      "(JStr (fst p), JStr (fst q)) \<notin> history_pairs s" for p q
  proof -
    from that(3) have "(JStr (fst p), JStr (fst q)) \<notin> ?ep" by (simp add: existing_sub)
    with that(1,2) have "subcommand_record (fst p) q \<in> set (added_records ?ep items)"
      by (auto simp: set_added_records)
    then show ?thesis by simp
  qed
  have base: "untested_record (JStr (fst p)) JNull (field (snd p) ''description'' JNull)
      (field (snd p) ''aliases'' (JArr [])) \<in> set ?rs"
    if "p \<in> set items" "truthy (field (snd p) ''description'' JNull)"
      "(JStr (fst p), JStr []) \<notin> history_pairs s" for p
  proof -
    from that(3) have "(JStr (fst p), JNull) \<notin> ?ep" by (simp add: existing_base)
    with that(1,2) have "untested_record (JStr (fst p)) JNull
        (field (snd p) ''description'' JNull) (field (snd p) ''aliases'' (JArr []))
        \<in> set (added_records ?ep items)"
      by (auto simp: set_added_records base_records_def)
    then show ?thesis by simp
  qed
  have 1: "\<forall>p \<in> set items. \<forall>q \<in> set (subcommands_of (snd p)).
        (JStr (fst p), JStr (fst q)) \<notin> history_pairs s \<longrightarrow>
          [(''command'', JStr (fst p)), (''subcommand'', JStr (fst q)),
           (''status'', JStr ''untested''), (''tested_at'', JStr ''Never''),
           (''notes'', JStr []),
           (''description'', field (snd q) ''description'' (JStr [])),
           (''aliases'', field (snd q) ''aliases'' (JArr [])),
           (''error_output'', JNull), (''execution_time_ms'', JNull)] \<in> set ?rs"
    using sub unfolding subcommand_record_def untested_record_def by blast
  have 2: "\<forall>p \<in> set items.
        truthy (field (snd p) ''description'' JNull) \<and>
        (JStr (fst p), JStr []) \<notin> history_pairs s \<longrightarrow>
          [(''command'', JStr (fst p)), (''subcommand'', JNull),
           (''status'', JStr ''untested''), (''tested_at'', JStr ''Never''),
           (''notes'', JStr []),
           (''description'', field (snd p) ''description'' JNull),
           (''aliases'', field (snd p) ''aliases'' (JArr [])),
           (''error_output'', JNull), (''execution_time_ms'', JNull)] \<in> set ?rs"
    using base unfolding untested_record_def by blast
  have 3: "\<forall>c. (\<forall>p \<in> set items. fst p = c \<longrightarrow> \<not> truthy (field (snd p) ''description'' JNull)) \<longrightarrow>
          (\<forall>r \<in> set ?rs. dict_get r ''command'' JNull = JStr c \<longrightarrow>
                         dict_get r ''subcommand'' JNull \<noteq> JNull)"
    using base_record_command [of _ s ?ep items] by fastforce
  have 4: "\<exists>n s'. create_snapshot sha256 avg_repr timestamp now day_ago description
                (Loaded (JObj items)) s = Inr (n, s') \<and>
          test_results s' = test_results s \<and> command_registry s' = command_registry s \<and>
          test_sessions s' = test_sessions s \<and>
          map sn_snapshot_data (test_snapshots s') =
            map sn_snapshot_data (test_snapshots s) @
              [dumps False
                 (JObj [(''timestamp'', JStr timestamp), (''results'', JArr (map JObj ?rs)),
                        (''statistics'', get_statistics avg_repr day_ago s)])]"
    using eq by (rule create_snapshot_effect)
  from eq 1 2 3 4 show ?thesis by blast
qed

theorem untested_synthesis_witness:
  "wf_doc trivia_doc \<and> wf_doc mod_doc \<and>
   (\<exists>rs. get_all_test_results (Loaded (JObj trivia_doc)) empty_store = Inr rs \<and>
      [(''command'', JStr ''trivia''), (''subcommand'', JStr ''start''),
       (''status'', JStr ''untested''), (''tested_at'', JStr ''Never''), (''notes'', JStr []),
       (''description'', JStr ''Start a round''), (''aliases'', JArr []),
       (''error_output'', JNull), (''execution_time_ms'', JNull)] \<in> set rs \<and>
      [(''command'', JStr ''trivia''), (''subcommand'', JNull),
       (''status'', JStr ''untested''), (''tested_at'', JStr ''Never''), (''notes'', JStr []),
       (''description'', JStr ''Play trivia''), (''aliases'', JArr []),
       (''error_output'', JNull), (''execution_time_ms'', JNull)] \<in> set rs) \<and>
   (\<exists>rs. get_all_test_results (Loaded (JObj mod_doc)) empty_store = Inr rs \<and>
      \<not> (\<exists>r \<in> set rs. dict_get r ''command'' JNull = JStr ''mod'' \<and>
                        dict_get r ''subcommand'' JNull = JNull))"
proof -
  have h: "history_pairs empty_store = {}" by (simp add: history_pairs_def empty_store_def)
  have 1: "hd trivia_doc \<in> set trivia_doc"
    by (simp add: trivia_doc_def)
  have 0: "fst (hd trivia_doc) = ''trivia''"
    by (simp add: trivia_doc_def)
  have 2: "(''start'', JObj [(''description'', JStr ''Start a round''),
             (''parameters'', JArr [])]) \<in> set (subcommands_of (snd (hd trivia_doc)))"
    by (simp add: trivia_doc_def subcommands_of_def field_def dict_get_def)
  have 3: "field (snd (hd trivia_doc)) ''description'' JNull = JStr ''Play trivia''"
    "field (snd (hd trivia_doc)) ''aliases'' (JArr []) = JArr []"
    by (simp_all add: trivia_doc_def field_def dict_get_def)
  have 4: "\<forall>p \<in> set mod_doc. fst p = ''mod'' \<longrightarrow> \<not> truthy (field (snd p) ''description'' JNull)"
    by (simp add: mod_doc_def field_def dict_get_def)
  from untested_synthesis [OF wf_examples(3), of empty_store]
  obtain rs where rs: "get_all_test_results (Loaded (JObj trivia_doc)) empty_store = Inr rs"
    "\<forall>p \<in> set trivia_doc. \<forall>q \<in> set (subcommands_of (snd p)).
        (JStr (fst p), JStr (fst q)) \<notin> history_pairs empty_store \<longrightarrow>
          [(''command'', JStr (fst p)), (''subcommand'', JStr (fst q)),
           (''status'', JStr ''untested''), (''tested_at'', JStr ''Never''),
           (''notes'', JStr []),
           (''description'', field (snd q) ''description'' (JStr [])),
           (''aliases'', field (snd q) ''aliases'' (JArr [])),
           (''error_output'', JNull), (''execution_time_ms'', JNull)] \<in> set rs"
    "\<forall>p \<in> set trivia_doc.
        truthy (field (snd p) ''description'' JNull) \<and>
        (JStr (fst p), JStr []) \<notin> history_pairs empty_store \<longrightarrow>
          [(''command'', JStr (fst p)), (''subcommand'', JNull),
           (''status'', JStr ''untested''), (''tested_at'', JStr ''Never''),
           (''notes'', JStr []),
           (''description'', field (snd p) ''description'' JNull),
           (''aliases'', field (snd p) ''aliases'' (JArr [])),
           (''error_output'', JNull), (''execution_time_ms'', JNull)] \<in> set rs"
    by blast
  from rs(2) [THEN bspec, OF 1, THEN bspec, OF 2]
  have a: "[(''command'', JStr ''trivia''), (''subcommand'', JStr ''start''),
       (''status'', JStr ''untested''), (''tested_at'', JStr ''Never''), (''notes'', JStr []),
       (''description'', JStr ''Start a round''), (''aliases'', JArr []),
       (''error_output'', JNull), (''execution_time_ms'', JNull)] \<in> set rs"
    by (simp add: h 0 field_def dict_get_def)
  from rs(3) [THEN bspec, OF 1]
  have b: "[(''command'', JStr ''trivia''), (''subcommand'', JNull),
       (''status'', JStr ''untested''), (''tested_at'', JStr ''Never''), (''notes'', JStr []),
       (''description'', JStr ''Play trivia''), (''aliases'', JArr []),
       (''error_output'', JNull), (''execution_time_ms'', JNull)] \<in> set rs"
    by (simp add: h 0 3)
  from untested_synthesis [OF wf_examples(1), of empty_store]
  obtain rs' where rs': "get_all_test_results (Loaded (JObj mod_doc)) empty_store = Inr rs'"
    "\<forall>c. (\<forall>p \<in> set mod_doc. fst p = c \<longrightarrow> \<not> truthy (field (snd p) ''description'' JNull)) \<longrightarrow>
          (\<forall>r \<in> set rs'. dict_get r ''command'' JNull = JStr c \<longrightarrow>
                          dict_get r ''subcommand'' JNull \<noteq> JNull)"
    by blast
  from rs'(2) 4 have c: "\<not> (\<exists>r \<in> set rs'. dict_get r ''command'' JNull = JStr ''mod'' \<and>
                        dict_get r ''subcommand'' JNull = JNull)"
    by blast
  from rs(1) a b rs'(1) c wf_examples(1,3) show ?thesis by blast
qed

text \<open>
  Claim C3 as stated fails twice.  The document declares \<^verbatim>\<open>mod\<close> without a
  description, nothing is recorded, and the list holds the record of \<^verbatim>\<open>mod ban\<close>
  only: the base command is not synthesized.  And the synthesized record does not stay
  in the query output: the snapshot row that \<^verbatim>\<open>create_snapshot\<close> writes into the store
  holds the record of \<^verbatim>\<open>mod ban\<close>.
\<close>

theorem untested_synthesis_counterexample:
  "(JStr ''mod'', JStr []) \<in> declared_base_pairs mod_doc \<and>
   test_results empty_store = [] \<and>
   get_all_test_results (Loaded (JObj mod_doc)) empty_store =
     Inr [[(''command'', JStr ''mod''), (''subcommand'', JStr ''ban''),
           (''status'', JStr ''untested''), (''tested_at'', JStr ''Never''),
           (''notes'', JStr []), (''description'', JStr ''Ban a member''),
           (''aliases'', JArr [JStr ''b'']),
           (''error_output'', JNull), (''execution_time_ms'', JNull)]] \<and>
   map_sum id (\<lambda>r. map sn_snapshot_data (test_snapshots (snd r)))
     (create_snapshot example_digest no_avg ''2024-03-01T10:00:00.000123''
        ''2024-03-01 10:00:00'' ''2024-02-29 10:00:00'' ''nightly''
        (Loaded (JObj mod_doc)) empty_store) =
     Inr [dumps False
            (JObj [(''timestamp'', JStr ''2024-03-01T10:00:00.000123''),
                   (''results'',
                      JArr [JObj [(''command'', JStr ''mod''), (''subcommand'', JStr ''ban''),
                        (''status'', JStr ''untested''), (''tested_at'', JStr ''Never''),
                        (''notes'', JStr []), (''description'', JStr ''Ban a member''),
                        (''aliases'', JArr [JStr ''b'']),
                        (''error_output'', JNull), (''execution_time_ms'', JNull)]]),
                   (''statistics'',
                      get_statistics no_avg ''2024-02-29 10:00:00'' empty_store)])]"
proof -
  have "test_results empty_store = []" by (simp add: empty_store_def)
  moreover have "(JStr ''mod'', JStr []) \<in> declared_base_pairs mod_doc"
    by (simp add: declared_base_pairs_def mod_doc_def)
  moreover have rs: "get_all_test_results (Loaded (JObj mod_doc)) empty_store =
     Inr [[(''command'', JStr ''mod''), (''subcommand'', JStr ''ban''),
           (''status'', JStr ''untested''), (''tested_at'', JStr ''Never''),
           (''notes'', JStr []), (''description'', JStr ''Ban a member''),
           (''aliases'', JArr [JStr ''b'']),
           (''error_output'', JNull), (''execution_time_ms'', JNull)]]"
    unfolding get_all_test_results_closed [OF wf_examples(1)] select_latest_empty
    by (simp add: added_records_def base_records_def subcommand_records_def
      subcommand_record_def untested_record_def mod_doc_def field_def dict_get_def
      subcommands_of_def existing_pairs_of_def)
  moreover have "map_sum id (\<lambda>r. map sn_snapshot_data (test_snapshots (snd r)))
     (create_snapshot example_digest no_avg ''2024-03-01T10:00:00.000123''
        ''2024-03-01 10:00:00'' ''2024-02-29 10:00:00'' ''nightly''
        (Loaded (JObj mod_doc)) empty_store) =
     Inr [dumps False
            (JObj [(''timestamp'', JStr ''2024-03-01T10:00:00.000123''),
                   (''results'',
                      JArr [JObj [(''command'', JStr ''mod''), (''subcommand'', JStr ''ban''),
                        (''status'', JStr ''untested''), (''tested_at'', JStr ''Never''),
                        (''notes'', JStr []), (''description'', JStr ''Ban a member''),
                        (''aliases'', JArr [JStr ''b'']),
                        (''error_output'', JNull), (''execution_time_ms'', JNull)]]),
                   (''statistics'',
                      get_statistics no_avg ''2024-02-29 10:00:00'' empty_store)])]"
    unfolding create_snapshot_def rs
    by (simp add: and_then_def Let_def snapshot_data_of_def empty_store_def del: dumps.simps)
  ultimately show ?thesis by simp
qed

text \<open>
  Claim C8 at a failing input.  The reconciliation normalises the subcommand of a recorded
  result (\<^verbatim>\<open>subcommand or None\<close>) and matches a base command against None, but a
  subcommand name of the document is compared as it is.  The extractor gives a command
  whose subcommand list ends in a comma a subcommand with the empty name; with a result
  recorded for the base command \<^verbatim>\<open>trivia\<close>, the list then holds that result and an
  \<^verbatim>\<open>untested\<close> record for the same pair.
\<close>

theorem reconcile_empty_subcommand_name:
  "get_all_test_results (Loaded (JObj trivia_doc)) trivia_store =
     Inr [[(''command'', JStr ''trivia''), (''subcommand'', JStr []),
           (''status'', JStr ''failed''), (''tested_at'', JStr ''2024-03-01 10:05:00''),
           (''notes'', JStr ''timeout''), (''error_output'', JStr []),
           (''execution_time_ms'', JInt 0), (''description'', JNull), (''aliases'', JNull)],
          untested_record (JStr ''trivia'') (JStr ''start'') (JStr ''Start a round'') (JArr []),
          untested_record (JStr ''trivia'') (JStr []) (JStr []) (JArr [])]"
proof -
  have reg: "command_registry trivia_store = Map.empty"
    by (simp add: trivia_store_def record_test_def and_then_def bind_integer_def not_null_def
      empty_store_def)
  have sel: "select_latest trivia_store =
      [[(''command'', JStr ''trivia''), (''subcommand'', JStr []),
        (''status'', JStr ''failed''), (''tested_at'', JStr ''2024-03-01 10:05:00''),
        (''notes'', JStr ''timeout''), (''error_output'', JStr []),
        (''execution_time_ms'', JInt 0), (''description'', JNull), (''aliases'', JNull)]]"
    by (simp add: select_latest_def trivia_rows latest_rows_def group_maxima_def
      result_key_def result_row_def reg text_value_def)
  show ?thesis
    unfolding get_all_test_results_closed [OF wf_examples(3)] sel
    by (simp add: added_records_def base_records_def subcommand_records_def
      subcommand_record_def trivia_doc_def field_def dict_get_def subcommands_of_def
      existing_pairs_of_def pair_of_result_def)
qed

section \<open>Properties of the registry update\<close>

lemma apply_writes_append:
  "apply_writes clock n (ws @ ws') reg =
     apply_writes clock (n + length ws) ws' (apply_writes clock n ws reg)"
  by (induction ws arbitrary: n reg) simp_all

lemma update_subcommands_writes:
  "update_subcommands numeric clock n cmd_name items reg =
     and_then (subcommand_writes numeric cmd_name items)
       (\<lambda>ws. Inr (n + length ws, apply_writes clock n ws reg))"
proof (induction items arbitrary: n reg)
  case Nil
  then show ?case by (simp add: and_then_def)
next
  case (Cons p items)
  obtain sn si where p: "p = (sn, si)" by (cases p)
  show ?case
    by (simp add: p Cons.IH and_then_def split: sum.splits)
qed

lemma update_commands_writes:
  "update_commands numeric clock n items reg =
     and_then (command_writes numeric items) (\<lambda>ws. Inr (n + length ws, apply_writes clock n ws reg))"
proof (induction items arbitrary: n reg)
  case Nil
  then show ?case by (simp add: and_then_def)
next
  case (Cons p items)
  obtain c ci where p: "p = (c, ci)" by (cases p)
  show ?case
    by (simp add: p Cons.IH update_subcommands_writes and_then_def apply_writes_append
      split: sum.splits)
qed

lemma apply_writes_other:
  "k \<notin> fst ` set ws \<Longrightarrow> apply_writes clock n ws reg k = reg k"
  by (induction ws arbitrary: n reg) (auto simp: insert_or_replace_def)

lemma apply_writes_written:
  "k \<in> fst ` set ws \<Longrightarrow>
   \<exists>i<length ws. apply_writes clock n ws reg k =
     Some (written_entry (clock (n + i)) (the (map_of (rev ws) k)))"
proof (induction ws arbitrary: n reg)
  case Nil
  then show ?case by simp
next
  case (Cons w ws)
  show ?case
  proof (cases "k \<in> fst ` set ws")
    case True
    from Cons.IH [OF True] obtain i where i: "i < length ws"
      "apply_writes clock (Suc n) ws
         (insert_or_replace (clock n) (fst (fst w)) (snd (fst w)) (fst (snd w)) (snd (snd w)) reg) k =
       Some (written_entry (clock (Suc n + i)) (the (map_of (rev ws) k)))"
      by blast
    from True have "k \<in> dom (map_of (rev ws))" by (simp add: dom_map_of_conv_image_fst)
    then have "map_of (rev (w # ws)) k = map_of (rev ws) k"
      by (auto simp: map_of_append map_add_def split: option.splits)
    with i show ?thesis by (intro exI [of _ "Suc i"]) simp
  next
    case False
    with Cons.prems have k: "fst w = k" by auto
    from False have "map_of (rev ws) k = None"
      by (simp add: map_of_eq_None_iff)
    then have "map_of (rev (w # ws)) k = Some (snd w)"
      using k by (cases w) (simp add: map_of_append map_add_def)
    moreover have "apply_writes clock (Suc n) ws
         (insert_or_replace (clock n) (fst (fst w)) (snd (fst w)) (fst (snd w)) (snd (snd w)) reg) k =
       Some (written_entry (clock n) (snd w))"
      using False k by (simp add: apply_writes_other insert_or_replace_def written_entry_def)
    ultimately show ?thesis by (intro exI [of _ 0]) simp
  qed
qed

lemma subcommand_writes_keys:
  "subcommand_writes numeric c items = Inr ws \<Longrightarrow> map fst ws = map (\<lambda>q. (c, fst q)) items"
proof (induction items arbitrary: ws)
  case Nil
  then show ?case by simp
next
  case (Cons q items)
  obtain sn si where q: "q = (sn, si)" by (cases q)
  from Cons.prems Cons.IH show ?case
    by (auto simp: q and_then_def split: sum.splits)
qed

lemma subcommands_of_items:
  "py_get cmd_info ''subcommands'' (JObj []) = Inr subs \<Longrightarrow> py_items subs = Inr items \<Longrightarrow>
   subcommands_of cmd_info = items"
  by (cases cmd_info; cases subs) (auto simp: subcommands_of_def field_def)

lemma command_writes_keys:
  "command_writes numeric items = Inr ws \<Longrightarrow>
   map fst ws =
     concat (map (\<lambda>p. (fst p, []) # map (\<lambda>q. (fst p, fst q)) (subcommands_of (snd p))) items)"
proof (induction items arbitrary: ws)
  case Nil
  then show ?case by simp
next
  case (Cons p items)
  obtain c ci where p: "p = (c, ci)" by (cases p)
  from Cons.prems obtain subs its ws1 ws2 where
    subs: "py_get ci ''subcommands'' (JObj []) = Inr subs" "py_items subs = Inr its"
    and ws1: "subcommand_writes numeric c its = Inr ws1"
    and ws2: "command_writes numeric items = Inr ws2"
    and ws: "map fst ws = (c, []) # map fst ws1 @ map fst ws2"
    by (auto simp: p and_then_def split: sum.splits)
  from subs have "subcommands_of ci = its" by (rule subcommands_of_items)
  with ws subcommand_writes_keys [OF ws1] Cons.IH [OF ws2] show ?case by (simp add: p)
qed

lemma command_writes_written_keys:
  assumes "command_writes numeric items = Inr ws"
  shows "fst ` set ws = written_keys (JObj items)" and "length ws = statements (JObj items)"
proof -
  note keys = command_writes_keys [OF assms]
  have "fst ` set ws = set (map fst ws)" by simp
  also have "\<dots> = written_keys (JObj items)"
    unfolding keys by (auto simp: written_keys_def commands_of_def)
  finally show "fst ` set ws = written_keys (JObj items)" .
  have "length ws = length (map fst ws)" by simp
  also have "\<dots> = statements (JObj items)"
    unfolding keys by (simp add: statements_def commands_of_def length_concat comp_def)
  finally show "length ws = statements (JObj items)" .
qed

text \<open>
  Claim C5, as the code has it.  When a call of \<^verbatim>\<open>update_command_registry\<close> returns, a
  second call with the same document returns as well, and every row holds the same
  description, aliases and \<^verbatim>\<open>is_active\<close> as after the first.  Every row the document
  writes is replaced as a whole, so both its \<^verbatim>\<open>last_modified\<close> and its
  \<^verbatim>\<open>discovered_at\<close> become the clock reading of one of the statements of the second
  call; every other row, and every other table, is unchanged.  This holds whatever the
  clocks of the two calls read and whatever SQLite makes of a number among the aliases.
\<close>

theorem update_command_registry_twice:
  assumes "update_command_registry numeric clock1 commands s = Inr s1"
  shows "\<exists>s2. update_command_registry numeric clock2 commands s1 = Inr s2 \<and>
     (\<forall>k. map_option entry_content (command_registry s2 k) =
          map_option entry_content (command_registry s1 k)) \<and>
     (\<forall>k \<in> written_keys commands.
        \<exists>e i. i < statements commands \<and> command_registry s2 k = Some e \<and>
          cr_discovered_at e = clock2 i \<and> cr_last_modified e = clock2 i) \<and>
     (\<forall>k. k \<notin> written_keys commands \<longrightarrow> command_registry s2 k = command_registry s1 k) \<and>
     test_sessions s2 = test_sessions s1 \<and> test_results s2 = test_results s1 \<and>
     test_snapshots s2 = test_snapshots s1"
proof -
  from assms obtain items ws where items: "py_items commands = Inr items"
    and ws: "command_writes numeric items = Inr ws"
    and s1: "s1 = s\<lparr>command_registry := apply_writes clock1 0 ws (command_registry s)\<rparr>"
    by (auto simp: update_command_registry_def update_commands_writes and_then_def
      split: sum.splits)
  from items have commands: "commands = JObj items" by (cases commands) auto
  note keys = command_writes_written_keys [OF ws, folded commands]
  let ?s2 = "s1\<lparr>command_registry := apply_writes clock2 0 ws (command_registry s1)\<rparr>"
  have "update_command_registry numeric clock2 commands s1 = Inr ?s2"
    by (simp add: update_command_registry_def update_commands_writes and_then_def items ws)
  moreover have "map_option entry_content (command_registry ?s2 k) =
      map_option entry_content (command_registry s1 k)" for k
  proof (cases "k \<in> fst ` set ws")
    case True
    from apply_writes_written [OF True, of clock1 0 "command_registry s"]
      apply_writes_written [OF True, of clock2 0 "command_registry s1"]
    show ?thesis by (auto simp: s1 entry_content_def written_entry_def)
  next
    case False
    then show ?thesis by (simp add: apply_writes_other)
  qed
  moreover have "\<exists>e i. i < statements commands \<and> command_registry ?s2 k = Some e \<and>
      cr_discovered_at e = clock2 i \<and> cr_last_modified e = clock2 i"
    if "k \<in> written_keys commands" for k
  proof -
    from that have "k \<in> fst ` set ws" by (simp add: keys(1))
    from apply_writes_written [OF this, of clock2 0 "command_registry s1"]
    show ?thesis by (auto simp: keys(2) written_entry_def)
  qed
  moreover have "command_registry ?s2 k = command_registry s1 k"
    if "k \<notin> written_keys commands" for k
    using that by (simp add: keys(1) [symmetric] apply_writes_other)
  ultimately show ?thesis by (intro exI [of _ ?s2]) simp
qed

lemma mod_doc_writes:
  "command_writes numeric mod_doc =
     Inr [((''mod'', []), Some [], JStr ''[]''),
          ((''mod'', ''ban''), Some ''Ban a member'',
           JStr [CHR ''['', CHR 0x22, CHR ''b'', CHR 0x22, CHR '']''])]"
  by (simp add: mod_doc_def and_then_def dict_get_def encode_str_def escape_char_def
    json_column_def)

lemma registry_once_eq:
  "update_command_registry no_number first_pass (JObj mod_doc) empty_store = Inr registry_once"
  by (simp add: registry_once_def update_command_registry_def update_commands_writes
    mod_doc_writes and_then_def)

lemma registry_twice_eq:
  "update_command_registry no_number second_pass (JObj mod_doc) registry_once = Inr registry_twice"
  by (simp add: registry_twice_def update_command_registry_def update_commands_writes
    mod_doc_writes and_then_def)

lemma mod_doc_keys:
  "written_keys (JObj mod_doc) = {(''mod'', []), (''mod'', ''ban'')}"
  "statements (JObj mod_doc) = 2"
  by (simp_all add: written_keys_def statements_def commands_of_def mod_doc_def
    subcommands_of_def field_def dict_get_def)

lemma registry_rows:
  "command_registry registry_once (''mod'', ''ban'') =
     Some \<lparr>cr_description = Some ''Ban a member'',
           cr_aliases = JStr [CHR ''['', CHR 0x22, CHR ''b'', CHR 0x22, CHR '']''],
           cr_discovered_at = ''2024-03-01 10:00:00'',
           cr_last_modified = ''2024-03-01 10:00:00'', cr_is_active = True\<rparr>"
  "command_registry registry_twice (''mod'', ''ban'') =
     Some \<lparr>cr_description = Some ''Ban a member'',
           cr_aliases = JStr [CHR ''['', CHR 0x22, CHR ''b'', CHR 0x22, CHR '']''],
           cr_discovered_at = ''2024-03-01 10:00:06'',
           cr_last_modified = ''2024-03-01 10:00:06'', cr_is_active = True\<rparr>"
  "command_registry registry_once (''mod'', ''kick'') = None"
  by (simp_all add: registry_once_def registry_twice_def update_command_registry_def
    update_commands_writes mod_doc_writes and_then_def insert_or_replace_def first_pass_def
    second_pass_def empty_store_def)

theorem update_command_registry_twice_witness:
  "update_command_registry no_number first_pass (JObj mod_doc) empty_store = Inr registry_once \<and>
   update_command_registry no_number second_pass (JObj mod_doc) registry_once = Inr registry_twice \<and>
   (''mod'', ''ban'') \<in> written_keys (JObj mod_doc) \<and>
   command_registry registry_once (''mod'', ''ban'') =
     Some \<lparr>cr_description = Some ''Ban a member'',
           cr_aliases = JStr [CHR ''['', CHR 0x22, CHR ''b'', CHR 0x22, CHR '']''],
           cr_discovered_at = ''2024-03-01 10:00:00'',
           cr_last_modified = ''2024-03-01 10:00:00'', cr_is_active = True\<rparr> \<and>
   command_registry registry_twice (''mod'', ''ban'') =
     Some \<lparr>cr_description = Some ''Ban a member'',
           cr_aliases = JStr [CHR ''['', CHR 0x22, CHR ''b'', CHR 0x22, CHR '']''],
           cr_discovered_at = ''2024-03-01 10:00:06'',
           cr_last_modified = ''2024-03-01 10:00:06'', cr_is_active = True\<rparr> \<and>
   (''mod'', ''kick'') \<notin> written_keys (JObj mod_doc) \<and>
   command_registry registry_twice (''mod'', ''kick'') = None"
proof -
  from update_command_registry_twice [OF registry_once_eq, of second_pass]
  obtain s2 where "update_command_registry no_number second_pass (JObj mod_doc) registry_once = Inr s2"
    "\<forall>k. k \<notin> written_keys (JObj mod_doc) \<longrightarrow>
       command_registry s2 k = command_registry registry_once k"
    by blast
  with registry_twice_eq have "\<forall>k. k \<notin> written_keys (JObj mod_doc) \<longrightarrow>
       command_registry registry_twice k = command_registry registry_once k"
    by simp
  then have "command_registry registry_twice (''mod'', ''kick'') = None"
    by (simp add: mod_doc_keys registry_rows(3))
  with registry_once_eq registry_twice_eq registry_rows(1,2) show ?thesis
    by (simp add: mod_doc_keys)
qed

text \<open>
  Claim C5 as stated fails for the second pass: \<^verbatim>\<open>INSERT OR REPLACE\<close> gives the row a
  new \<^verbatim>\<open>discovered_at\<close>, a field the claim says is unchanged.
\<close>

theorem update_command_registry_twice_counterexample:
  "update_command_registry no_number first_pass (JObj mod_doc) empty_store = Inr registry_once \<and>
   update_command_registry no_number second_pass (JObj mod_doc) registry_once = Inr registry_twice \<and>
   map_option cr_discovered_at (command_registry registry_once (''mod'', [])) =
     Some ''2024-03-01 10:00:00'' \<and>
   map_option cr_discovered_at (command_registry registry_twice (''mod'', [])) =
     Some ''2024-03-01 10:00:05''"
proof -
  have "map_option cr_discovered_at (command_registry registry_once (''mod'', [])) =
     Some ''2024-03-01 10:00:00''"
    by (simp add: registry_once_def update_command_registry_def update_commands_writes
      mod_doc_writes and_then_def insert_or_replace_def first_pass_def)
  moreover have "map_option cr_discovered_at (command_registry registry_twice (''mod'', [])) =
     Some ''2024-03-01 10:00:05''"
    by (simp add: registry_twice_def update_command_registry_def update_commands_writes
      mod_doc_writes and_then_def insert_or_replace_def second_pass_def)
  ultimately show ?thesis using registry_once_eq registry_twice_eq by simp
qed

section \<open>Properties of the migration\<close>

lemma without_skipped_Cons:
  "without_skipped ((c, content) # items) =
     (if is_dict content
      then (c, case content of JObj kvs \<Rightarrow> JObj (filter (\<lambda>q. imported_info (snd q)) kvs)
                  | v \<Rightarrow> v) # without_skipped items
      else without_skipped items)"
  by (simp add: without_skipped_def)

lemma subcommand_entries_Cons:
  "subcommand_entries c ((sub, info) # kvs) =
     (if imported_info info then (c, sub, info) # subcommand_entries c kvs
      else subcommand_entries c kvs)"
  by (simp add: subcommand_entries_def)

lemma entries_Cons:
  "entries ((c, content) # items) =
     (case content of JObj kvs \<Rightarrow> subcommand_entries c kvs | _ \<Rightarrow> []) @ entries items"
  by (cases content) (simp_all add: entries_def)

lemma migrate_subcommands_filter:
  "migrate_subcommands clock sid c kvs s =
     migrate_subcommands clock sid c (filter (\<lambda>q. imported_info (snd q)) kvs) s"
proof (induction kvs arbitrary: s)
  case Nil
  then show ?case by simp
next
  case (Cons q kvs)
  obtain sub info where q: "q = (sub, info)" by (cases q)
  show ?case
    by (cases info) (auto simp: q imported_info_def Cons.IH split: sum.splits)
qed

lemma migrate_commands_without_skipped:
  "migrate_commands clock sid items s = migrate_commands clock sid (without_skipped items) s"
proof (induction items arbitrary: s)
  case Nil
  then show ?case by (simp add: without_skipped_def)
next
  case (Cons p items)
  obtain c content where p: "p = (c, content)" by (cases p)
  show ?case
    by (cases content)
       (simp_all add: p without_skipped_Cons Cons.IH migrate_subcommands_filter [symmetric]
         split: prod.splits option.splits)
qed

lemma record_test_storable:
  assumes "storable (c, sub, JObj kvs)"
  shows "record_test now sid c (if sub = ''_self'' then None else Some sub)
           (dict_get kvs ''status'' (JStr ''untested'')) (dict_get kvs ''notes'' (JStr []))
           [] 0 (Some [(''migrated'', JBool True)]) s =
         Inr (s\<lparr>test_results := test_results s @ [migrated_row now sid (c, sub, JObj kvs)]\<rparr>)"
  using assms
  by (auto simp: storable_def record_test_def and_then_def field_def bind_integer_def
    not_null_def migrated_row_def or_empty_def split: sum.splits option.splits)

lemma migrated_rows_append:
  "migrated_rows clock sid n (es @ es') =
     migrated_rows clock sid n es @ migrated_rows clock sid (n + length es) es'"
  by (induction es arbitrary: n) simp_all

lemma length_migrated_rows: "length (migrated_rows clock sid n es) = length es"
  by (induction es arbitrary: n) simp_all

lemma migrate_subcommands_storable:
  "list_all storable (subcommand_entries c kvs) \<Longrightarrow>
   migrate_subcommands clock sid c kvs s =
     (None, s\<lparr>test_results := test_results s @
        migrated_rows clock sid (length (test_results s)) (subcommand_entries c kvs)\<rparr>)"
proof (induction kvs arbitrary: s)
  case Nil
  then show ?case by (simp add: subcommand_entries_def)
next
  case (Cons q kvs)
  obtain sub info where q: "q = (sub, info)" by (cases q)
  show ?case
  proof (cases "imported_info info")
    case True
    then obtain d where d: "info = JObj d" "''status'' \<in> fst ` set d"
      by (cases info) (auto simp: imported_info_def)
    from Cons.prems True have st: "storable (c, sub, JObj d)"
      and rest: "list_all storable (subcommand_entries c kvs)"
      by (simp_all add: subcommand_entries_Cons q d)
    from True d show ?thesis
      by (simp add: q subcommand_entries_Cons record_test_storable [OF st]
        Cons.IH [OF rest] Let_def)
  next
    case False
    with Cons.prems have rest: "list_all storable (subcommand_entries c kvs)"
      by (simp add: subcommand_entries_Cons q)
    from False show ?thesis
      by (cases info) (auto simp: q subcommand_entries_Cons imported_info_def Cons.IH [OF rest])
  qed
qed

lemma migrate_commands_storable:
  "list_all storable (entries items) \<Longrightarrow>
   migrate_commands clock sid items s =
     (None, s\<lparr>test_results := test_results s @
        migrated_rows clock sid (length (test_results s)) (entries items)\<rparr>)"
proof (induction items arbitrary: s)
  case Nil
  then show ?case by (simp add: entries_def)
next
  case (Cons p items)
  obtain c content where p: "p = (c, content)" by (cases p)
  show ?case
  proof (cases content)
    case (JObj kvs)
    with Cons.prems have a: "list_all storable (subcommand_entries c kvs)"
      "list_all storable (entries items)" by (simp_all add: p entries_Cons)
    show ?thesis
      by (simp add: p JObj entries_Cons migrate_subcommands_storable [OF a(1)]
        Cons.IH [OF a(2)] migrated_rows_append length_migrated_rows)
  qed (use Cons in \<open>simp_all add: entries_Cons p\<close>)
qed

lemma start_session_results:
  "start_session sha256 now_str now u g c s = Inr (sid, s1) \<Longrightarrow>
     test_results s1 = test_results s"
  by (auto simp: start_session_def Let_def split: if_splits)

lemma end_session_results: "test_results (end_session now sid s) = test_results s"
  by (simp add: end_session_def)

text \<open>
  Claim C10.  Migrating a document gives the same return value and the same store as
  migrating the document with every skipped part removed: a command whose content is not
  a dict, and an info that is not a dict with a \<^verbatim>\<open>status\<close> key, have no effect.  When
  the migration session starts and the entries that are not skipped can be stored, the
  call returns True and the rows it adds are the rows of those entries, one for each, in
  the order of the document; with nothing but skipped parts it returns True and adds no
  row.
\<close>

theorem migrate_from_json_skips:
  "migrate_from_json sha256 now_str started clock ended (Loaded (JObj items)) s =
     migrate_from_json sha256 now_str started clock ended
       (Loaded (JObj (without_skipped items))) s \<and>
   (list_all storable (entries items) \<and>
    start_session sha256 now_str started ''migration'' ''migration'' ''migration'' s =
      Inr (session_id, s1) \<longrightarrow>
      (\<exists>s2. migrate_from_json sha256 now_str started clock ended (Loaded (JObj items)) s =
              (True, s2) \<and>
            test_results s2 =
              test_results s @
                migrated_rows clock session_id (length (test_results s)) (entries items)))"
proof (intro conjI impI)
  show "migrate_from_json sha256 now_str started clock ended (Loaded (JObj items)) s =
     migrate_from_json sha256 now_str started clock ended
       (Loaded (JObj (without_skipped items))) s"
    by (simp add: migrate_from_json_def migrate_commands_without_skipped [of clock _ items]
      split: sum.splits)
next
  assume a: "list_all storable (entries items) \<and>
    start_session sha256 now_str started ''migration'' ''migration'' ''migration'' s =
      Inr (session_id, s1)"
  let ?s2 = "s1\<lparr>test_results := test_results s1 @
        migrated_rows clock session_id (length (test_results s1)) (entries items)\<rparr>"
  from a have r: "test_results s1 = test_results s" by (auto dest: start_session_results)
  from a have "migrate_from_json sha256 now_str started clock ended (Loaded (JObj items)) s =
      (True, end_session ended session_id ?s2)"
    by (simp add: migrate_from_json_def migrate_commands_storable)
  moreover have "test_results (end_session ended session_id ?s2) =
      test_results s @ migrated_rows clock session_id (length (test_results s)) (entries items)"
    by (simp add: end_session_results r)
  ultimately show "\<exists>s2. migrate_from_json sha256 now_str started clock ended
        (Loaded (JObj items)) s = (True, s2) \<and>
      test_results s2 =
        test_results s @ migrated_rows clock session_id (length (test_results s)) (entries items)"
    by blast
qed

lemma legacy_entries:
  "entries legacy_doc =
     [(''ping'', ''_self'', JObj [(''status'', JStr ''passed''), (''notes'', JStr ''ok'')]),
      (''mod'', ''mute'', JObj [(''status'', JStr ''failed'')])]"
  "entries skipped_only_doc = []"
  by (simp_all add: entries_def subcommand_entries_def imported_info_def legacy_doc_def
    skipped_only_doc_def)

theorem migrate_from_json_skips_witness:
  "(\<exists>s2. migrate_from_json example_digest ''2024-03-02 09:00:00.120000'' ''2024-03-02 09:00:00''
           example_clock ''2024-03-02 09:00:01'' (Loaded (JObj legacy_doc)) empty_store =
           (True, s2) \<and>
         map (\<lambda>r. (tr_command r, tr_subcommand r, tr_status r, tr_notes r)) (test_results s2) =
           [(''ping'', [], ''passed'', Some ''ok''), (''mod'', ''mute'', ''failed'', Some [])]) \<and>
   (\<exists>s2. migrate_from_json example_digest ''2024-03-02 09:00:00.120000'' ''2024-03-02 09:00:00''
           example_clock ''2024-03-02 09:00:01'' (Loaded (JObj skipped_only_doc)) empty_store =
           (True, s2) \<and>
         test_results s2 = [])"
proof -
  let ?sid = "take 16 (example_digest
    (''migration'' @ ''migration'' @ ''migration'' @ ''2024-03-02 09:00:00.120000''))"
  let ?s1 = "empty_store\<lparr>test_sessions := test_sessions empty_store @
      [\<lparr>ts_session_id = ?sid, ts_started_at = ''2024-03-02 09:00:00'', ts_ended_at = None,
        ts_user_id = ''migration'', ts_guild_id = ''migration'',
        ts_channel_id = ''migration''\<rparr>]\<rparr>"
  have st: "start_session example_digest ''2024-03-02 09:00:00.120000'' ''2024-03-02 09:00:00''
      ''migration'' ''migration'' ''migration'' empty_store = Inr (?sid, ?s1)"
    by (simp add: start_session_def empty_store_def Let_def)
  have e: "test_results empty_store = []" by (simp add: empty_store_def)
  have 1: "list_all storable (entries legacy_doc)" "list_all storable (entries skipped_only_doc)"
    by (simp_all add: legacy_entries storable_def field_def dict_get_def)
  from migrate_from_json_skips [THEN conjunct2, rule_format, OF conjI [OF 1(1) st],
      of example_clock "''2024-03-02 09:00:01''"]
  have a: "\<exists>s2. migrate_from_json example_digest ''2024-03-02 09:00:00.120000''
           ''2024-03-02 09:00:00'' example_clock ''2024-03-02 09:00:01''
           (Loaded (JObj legacy_doc)) empty_store = (True, s2) \<and>
         test_results s2 = migrated_rows example_clock ?sid 0 (entries legacy_doc)"
    by (simp add: e)
  from migrate_from_json_skips [THEN conjunct2, rule_format, OF conjI [OF 1(2) st],
      of example_clock "''2024-03-02 09:00:01''"]
  have b: "\<exists>s2. migrate_from_json example_digest ''2024-03-02 09:00:00.120000''
           ''2024-03-02 09:00:00'' example_clock ''2024-03-02 09:00:01''
           (Loaded (JObj skipped_only_doc)) empty_store = (True, s2) \<and>
         test_results s2 = []"
    by (simp add: e legacy_entries)
  have "map (\<lambda>r. (tr_command r, tr_subcommand r, tr_status r, tr_notes r))
      (migrated_rows example_clock ?sid 0 (entries legacy_doc)) =
        [(''ping'', [], ''passed'', Some ''ok''), (''mod'', ''mute'', ''failed'', Some [])]"
    by (simp add: legacy_entries migrated_row_def field_def dict_get_def)
  with a b show ?thesis by auto
qed

section \<open>Properties of the snapshot checksum\<close>

lemma sort_key_distinct_keys:
  assumes "distinct (map fst kvs)"
  shows "map fst (sort_key fst kvs) = sorted_list_of_set (fst ` set kvs)"
proof -
  have "sorted (map fst (sort_key fst kvs))" by (rule sorted_sort_key)
  moreover have "distinct (map fst (sort_key fst kvs))"
    using assms by (simp add: distinct_map inj_on_def)
  moreover have "set (map fst (sort_key fst kvs)) = fst ` set kvs" by simp
  ultimately show ?thesis
    by (metis sorted_list_of_set.idem_if_sorted_distinct)
qed

lemma sort_key_as_lookup:
  assumes "distinct (map fst kvs)"
  shows "sort_key fst kvs =
           map (\<lambda>k. (k, the (map_of kvs k))) (sorted_list_of_set (fst ` set kvs))"
proof -
  have "map (\<lambda>p. (fst p, the (map_of kvs (fst p)))) (sort_key fst kvs) = sort_key fst kvs"
  proof (rule map_idI)
    fix p assume "p \<in> set (sort_key fst kvs)"
    then have "(fst p, snd p) \<in> set kvs" by simp
    with assms have "map_of kvs (fst p) = Some (snd p)" by (rule map_of_is_SomeI)
    then show "(fst p, the (map_of kvs (fst p))) = p" by simp
  qed
  then have "sort_key fst kvs =
      map (\<lambda>k. (k, the (map_of kvs k))) (map fst (sort_key fst kvs))"
    by (simp add: comp_def)
  with assms show ?thesis by (simp only: sort_key_distinct_keys)
qed

lemma dumps_sorted_dict:
  assumes "distinct (map fst kvs)"
  shows "dumps True (JObj kvs) =
           ''{'' @ join '', ''
             (map (\<lambda>k. encode_str k @ '': '' @ dumps True (the (map_of kvs k)))
               (sorted_list_of_set (fst ` set kvs))) @ ''}''"
  by (simp add: sort_key_as_lookup [OF assms] comp_def)

lemma map_dumps_list_all2:
  "list_all2 (\<lambda>x y. dumps True x = dumps True y) xs ys \<Longrightarrow>
     map (dumps True) xs = map (dumps True) ys"
  by (induction rule: list_all2_induct) simp_all

lemma same_content_dumps: "same_content a b \<Longrightarrow> dumps True a = dumps True b"
proof (induction a arbitrary: b)
  case (JArr xs)
  from JArr.prems obtain ys where b: "b = JArr ys" and r: "list_all2 same_content xs ys"
    by (cases b) auto
  from r have "list_all2 (\<lambda>x y. dumps True x = dumps True y) xs ys"
    by (rule list.rel_mono_strong) (rule JArr.IH)
  then show ?case by (simp add: b map_dumps_list_all2)
next
  case (JObj kvs)
  from JObj.prems obtain kvs' where b: "b = JObj kvs'"
    and d: "distinct (map fst kvs)" "distinct (map fst kvs')"
    and k: "fst ` set kvs = fst ` set kvs'"
    and r: "\<forall>p \<in> set kvs. \<forall>q \<in> set kvs'. fst p = fst q \<longrightarrow> same_content (snd p) (snd q)"
    by (cases b) auto
  have "dumps True (the (map_of kvs x)) = dumps True (the (map_of kvs' x))"
    if "x \<in> fst ` set kvs" for x
  proof -
    from that obtain v where v: "(x, v) \<in> set kvs" by auto
    from that k obtain v' where v': "(x, v') \<in> set kvs'" by force
    from d v v' have m: "map_of kvs x = Some v" "map_of kvs' x = Some v'"
      by (simp_all add: map_of_is_SomeI)
    from r v v' have "same_content v v'" by force
    with JObj.IH [of "(x, v)" v] v have "dumps True v = dumps True v'" by simp
    with m show ?thesis by simp
  qed
  then have eq: "map (\<lambda>x. encode_str x @ '': '' @ dumps True (the (map_of kvs x)))
        (sorted_list_of_set (fst ` set kvs)) =
      map (\<lambda>x. encode_str x @ '': '' @ dumps True (the (map_of kvs' x)))
        (sorted_list_of_set (fst ` set kvs))"
    by (intro map_cong) simp_all
  show ?case
    unfolding b dumps_sorted_dict [OF d(1)] dumps_sorted_dict [OF d(2)] k [symmetric] eq ..
qed (auto)

lemma get_all_test_results_cong:
  "test_results s' = test_results s \<Longrightarrow> command_registry s' = command_registry s \<Longrightarrow>
     get_all_test_results discovered s' = get_all_test_results discovered s"
  by (simp add: get_all_test_results_def select_latest_def)

lemma get_statistics_cong:
  "test_results s' = test_results s \<Longrightarrow>
     get_statistics avg_repr day_ago s' = get_statistics avg_repr day_ago s"
  by (simp add: get_statistics_def)

lemma create_snapshot_checksum:
  assumes "create_snapshot sha256 avg_repr timestamp now day_ago description discovered s =
             Inr (n, s')"
  shows "\<exists>results. get_all_test_results discovered s = Inr results \<and>
           last_checksum s' =
             Some (checksum_of sha256
               (snapshot_data_of timestamp results (get_statistics avg_repr day_ago s))) \<and>
           test_results s' = test_results s \<and> command_registry s' = command_registry s"
  using assms
  by (auto simp: create_snapshot_def and_then_def Let_def last_checksum_def split: sum.splits)

text \<open>
  Claim C4, as the code has it.  The checksum is the digest of the snapshot serialised
  with sorted keys, so two values that differ only in the order of their dict keys have
  the same checksum.  The snapshot holds \<^verbatim>\<open>datetime.now().isoformat()\<close> under
  \<^verbatim>\<open>timestamp\<close> and the count of the last 24 hours: when a call of
  \<^verbatim>\<open>create_snapshot\<close> returns, a second call with no write in between that reads the
  same clock value returns as well and stores the same checksum.
\<close>

theorem snapshot_checksum_deterministic:
  "(same_content a b \<longrightarrow> checksum_of sha256 a = checksum_of sha256 b) \<and>
   (create_snapshot sha256 avg_repr timestamp now day_ago description discovered s =
      Inr (n1, s1) \<longrightarrow>
      (\<exists>n2 s2. create_snapshot sha256 avg_repr timestamp now' day_ago description' discovered s1 =
                 Inr (n2, s2) \<and>
               last_checksum s2 = last_checksum s1))"
proof (intro conjI impI)
  assume "same_content a b"
  then show "checksum_of sha256 a = checksum_of sha256 b"
    by (simp add: checksum_of_def same_content_dumps)
next
  assume a: "create_snapshot sha256 avg_repr timestamp now day_ago description discovered s =
      Inr (n1, s1)"
  from create_snapshot_checksum [OF a] obtain results
    where r: "get_all_test_results discovered s = Inr results"
      and c1: "last_checksum s1 = Some (checksum_of sha256
               (snapshot_data_of timestamp results (get_statistics avg_repr day_ago s)))"
      and same: "test_results s1 = test_results s" "command_registry s1 = command_registry s"
    by blast
  from same have r1: "get_all_test_results discovered s1 = Inr results"
    by (simp add: get_all_test_results_cong r)
  then obtain n2 s2 where b: "create_snapshot sha256 avg_repr timestamp now' day_ago description'
      discovered s1 = Inr (n2, s2)"
    by (simp add: create_snapshot_def and_then_def Let_def)
  from create_snapshot_checksum [OF b] r1 same c1
  have "last_checksum s2 = last_checksum s1"
    by (auto simp: get_statistics_cong [OF same(1)])
  with b show "\<exists>n2 s2. create_snapshot sha256 avg_repr timestamp now' day_ago description'
      discovered s1 = Inr (n2, s2) \<and> last_checksum s2 = last_checksum s1"
    by blast
qed

lemma snapshot_once_eq:
  "create_snapshot sha256 no_avg ''2024-03-01T10:00:00.000123'' ''2024-03-01 10:00:00''
     ''2024-02-29 10:00:00'' ''before release'' Missing empty_store =
   Inr (1, snapshot_once sha256)"
  by (simp add: snapshot_once_def create_snapshot_def and_then_def Let_def
    get_all_test_results_def integrate_with_discovered_commands_def empty_store_def)

lemma snapshot_twice_eq:
  "create_snapshot sha256 no_avg ''2024-03-01T10:00:00.000456'' ''2024-03-01 10:00:00''
     ''2024-02-29 10:00:00'' ''before release'' Missing (snapshot_once sha256) =
   Inr (2, snapshot_twice sha256)"
  by (simp add: snapshot_twice_def snapshot_once_def create_snapshot_def and_then_def Let_def
    get_all_test_results_def integrate_with_discovered_commands_def empty_store_def)

theorem snapshot_checksum_deterministic_witness:
  "same_content row_keys_first row_keys_second \<and>
   checksum_of example_digest row_keys_first = checksum_of example_digest row_keys_second \<and>
   (\<exists>n2 s2. create_snapshot example_digest no_avg ''2024-03-01T10:00:00.000123''
              ''2024-03-01 10:00:00'' ''2024-02-29 10:00:00'' ''again'' Missing
              (snapshot_once example_digest) = Inr (n2, s2) \<and>
            last_checksum s2 = last_checksum (snapshot_once example_digest))"
proof -
  have s: "same_content row_keys_first row_keys_second"
    by (simp add: row_keys_first_def row_keys_second_def insert_commute)
  from snapshot_checksum_deterministic [of row_keys_first row_keys_second example_digest
      no_avg "''2024-03-01T10:00:00.000123''" "''2024-03-01 10:00:00''"
      "''2024-02-29 10:00:00''" "''before release''" Missing empty_store 1
      "snapshot_once example_digest" "''2024-03-01 10:00:00''" "''again''"]
    s snapshot_once_eq [of example_digest]
  show ?thesis by simp
qed

lemma snapshot_checksums:
  "last_checksum (snapshot_once sha256) =
     Some (sha256 (dumps True (snapshot_data_of ''2024-03-01T10:00:00.000123'' []
       (get_statistics no_avg ''2024-02-29 10:00:00'' empty_store))))"
  "last_checksum (snapshot_twice sha256) =
     Some (sha256 (dumps True (snapshot_data_of ''2024-03-01T10:00:00.000456'' []
       (get_statistics no_avg ''2024-02-29 10:00:00'' empty_store))))"
proof -
  from create_snapshot_checksum [OF snapshot_once_eq [of sha256]]
  show 1: "last_checksum (snapshot_once sha256) =
     Some (sha256 (dumps True (snapshot_data_of ''2024-03-01T10:00:00.000123'' []
       (get_statistics no_avg ''2024-02-29 10:00:00'' empty_store))))"
    by (auto simp: get_all_test_results_def integrate_with_discovered_commands_def
      select_latest_empty checksum_of_def)
  from create_snapshot_checksum [OF snapshot_once_eq [of sha256]]
  have same: "test_results (snapshot_once sha256) = test_results empty_store"
    "command_registry (snapshot_once sha256) = command_registry empty_store" by auto
  have "select_latest (snapshot_once sha256) = []"
    by (simp add: select_latest_def same empty_store_def latest_rows_def)
  with create_snapshot_checksum [OF snapshot_twice_eq [of sha256]]
  show "last_checksum (snapshot_twice sha256) =
     Some (sha256 (dumps True (snapshot_data_of ''2024-03-01T10:00:00.000456'' []
       (get_statistics no_avg ''2024-02-29 10:00:00'' empty_store))))"
    by (auto simp: get_all_test_results_cong [OF same] get_statistics_cong [OF same(1)]
      get_all_test_results_def integrate_with_discovered_commands_def
      select_latest_empty checksum_of_def)
qed

lemma snapshot_texts_differ:
  "dumps True (snapshot_data_of ''2024-03-01T10:00:00.000123'' []
       (get_statistics no_avg ''2024-02-29 10:00:00'' empty_store)) \<noteq>
   dumps True (snapshot_data_of ''2024-03-01T10:00:00.000456'' []
       (get_statistics no_avg ''2024-02-29 10:00:00'' empty_store))"
  by (simp add: snapshot_data_of_def get_statistics_def empty_store_def avg_value_def
    status_distribution_def latest_rows_def encode_str_def escape_char_def show_int_def
    show_nat.simps digit_def)

text \<open>
  Claim C4 as stated fails for two calls in immediate succession that read different
  clock values: the serialised snapshots differ in their \<^verbatim>\<open>timestamp\<close>, so the two
  checksums are digests of different texts, and a digest that tells the two texts apart
  gives different checksums.
\<close>

theorem snapshot_checksum_counterexample:
  "create_snapshot example_digest no_avg ''2024-03-01T10:00:00.000123'' ''2024-03-01 10:00:00''
     ''2024-02-29 10:00:00'' ''before release'' Missing empty_store =
     Inr (1, snapshot_once example_digest) \<and>
   create_snapshot example_digest no_avg ''2024-03-01T10:00:00.000456'' ''2024-03-01 10:00:00''
     ''2024-02-29 10:00:00'' ''before release'' Missing (snapshot_once example_digest) =
     Inr (2, snapshot_twice example_digest) \<and>
   last_checksum (snapshot_twice example_digest) \<noteq> last_checksum (snapshot_once example_digest) \<and>
   \<not> (\<forall>sha256. last_checksum (snapshot_twice sha256) = last_checksum (snapshot_once sha256))"
proof -
  have d: "last_checksum (snapshot_twice example_digest) \<noteq>
      last_checksum (snapshot_once example_digest)"
    using snapshot_texts_differ by (simp add: snapshot_checksums example_digest_def)
  then have "\<not> (\<forall>sha256. last_checksum (snapshot_twice sha256) =
      last_checksum (snapshot_once sha256))" by blast
  with d snapshot_once_eq snapshot_twice_eq show ?thesis by blast
qed

section \<open>Properties of the backup manager\<close>

lemma unlink_all_filter: "unlink_all ns d = filter (\<lambda>p. fst p \<notin> set ns) d"
proof (induction ns arbitrary: d)
  case Nil
  then show ?case by simp
next
  case (Cons n ns)
  have "AList.delete n d = filter (\<lambda>p. fst p \<noteq> n) d"
    by (induction d) auto
  then show ?case using Cons by (auto intro: filter_cong)
qed



lemma cleanup_backups:
  "backups (cleanup_old_backups 10 f) =
     filter (\<lambda>p. fst p \<notin> fst ` set (pruned (backups f))) (backups f)"
proof (cases "length (backups f) > 10")
  case True
  then show ?thesis
    by (simp add: cleanup_old_backups_def all_but_last_def unlink_all_filter pruned_def)
next
  case False
  then show ?thesis
    by (simp add: cleanup_old_backups_def pruned_def)
qed

lemma sorted_take_drop_le:
  assumes "sorted (map f xs)" "x \<in> set (take m xs)" "y \<in> set (drop m xs)"
  shows "f x \<le> f y"
proof -
  have "sorted (map f (take m xs) @ map f (drop m xs))"
    using assms(1) by (simp flip: map_append)
  then show ?thesis using assms(2,3) by (auto simp: sorted_append)
qed

lemma length_filter_take_drop:
  "length (filter P xs) = length (filter P (take m xs)) + length (filter P (drop m xs))"
  by (metis append_take_drop_id filter_append length_append)

lemma length_filter_insort_key:
  "length (filter P (insort_key f x xs)) = length (filter P (x # xs))"
  by (induction xs) auto

lemma length_filter_sort_key:
  "length (filter P (sort_key f xs)) = length (filter P xs)"
  by (induction xs) (auto simp: length_filter_insort_key)

text \<open>an entry with at least ten strictly newer entries is pruned\<close>
lemma old_entry_pruned:
  assumes "x \<in> set d"
      and "10 \<le> length (filter (\<lambda>p. mtime_of x < mtime_of p) d)"
  shows "x \<in> set (pruned d)"
proof (rule ccontr)
  let ?s = "sort_key mtime_of d" and ?m = "length d - 10"
  let ?P = "\<lambda>p. mtime_of x < mtime_of p"
  assume "x \<notin> set (pruned d)"
  moreover have "x \<in> set (take ?m ?s) \<union> set (drop ?m ?s)"
    using assms(1) by (metis append_take_drop_id set_append set_sort)
  ultimately have xd: "x \<in> set (drop ?m ?s)" by (simp add: pruned_def)
  have "\<not> ?P y" if "y \<in> set (take ?m ?s)" for y
    using sorted_take_drop_le [OF sorted_sort_key that xd] by simp
  then have "filter ?P (take ?m ?s) = []" by (simp add: filter_empty_conv)
  then have "length (filter ?P (drop ?m ?s)) = length (filter ?P d)"
    using length_filter_take_drop [of ?P ?s ?m] by (simp add: length_filter_sort_key)
  moreover have "length (filter ?P (drop ?m ?s)) < length (drop ?m ?s)"
    using xd by (intro length_filter_less) auto
  moreover have "length (drop ?m ?s) \<le> 10" by simp
  ultimately show False using assms(2) by linarith
qed

text \<open>an entry with at most ten entries at least as new (itself included) is kept\<close>
lemma recent_entry_kept:
  assumes "x \<in> set d"
      and "length (filter (\<lambda>p. mtime_of x \<le> mtime_of p) d) \<le> 10"
  shows "x \<notin> set (pruned d)"
proof
  let ?s = "sort_key mtime_of d" and ?m = "length d - 10"
  let ?P = "\<lambda>p. mtime_of x \<le> mtime_of p"
  assume "x \<in> set (pruned d)"
  then have xt: "x \<in> set (take ?m ?s)" by (simp add: pruned_def)
  then have "?m > 0" by (cases "?m") auto
  then have len: "length (drop ?m ?s) = 10" by simp
  have "?P y" if "y \<in> set (drop ?m ?s)" for y
    using sorted_take_drop_le [OF sorted_sort_key xt that] .
  then have "filter ?P (drop ?m ?s) = drop ?m ?s" by (simp add: filter_id_conv)
  moreover have "length (filter ?P (take ?m ?s)) > 0"
    using xt by (auto simp: filter_empty_conv)
  ultimately have "length (filter ?P ?s) > 10"
    using length_filter_take_drop [of ?P ?s ?m] len by simp
  then show False using assms(2) by (simp add: length_filter_sort_key)
qed

lemma pruned_subset: "set (pruned d) \<subseteq> set d"
  by (metis pruned_def set_sort set_take_subset)

lemma length_cleanup_le:
  "length (backups (cleanup_old_backups 10 f)) \<le> 10"
proof -
  let ?d = "backups f"
  let ?s = "sort_key mtime_of ?d" and ?m = "length ?d - 10"
  let ?Q = "\<lambda>p. fst p \<notin> fst ` set (pruned ?d)"
  have "filter ?Q (take ?m ?s) = []"
    by (auto simp: filter_empty_conv pruned_def)
  then have "length (filter ?Q ?d) = length (filter ?Q (drop ?m ?s))"
    using length_filter_take_drop [of ?Q ?s ?m] by (simp add: length_filter_sort_key)
  also have "\<dots> \<le> length (drop ?m ?s)" by (rule length_filter_le)
  also have "\<dots> \<le> 10" by simp
  finally show ?thesis by (simp add: cleanup_backups)
qed


lemma kept_are_newest:
  assumes "distinct (map fst (backups f))"
      and "k \<in> set (backups (cleanup_old_backups 10 f))"
      and "r \<in> set (backups f)" "r \<notin> set (backups (cleanup_old_backups 10 f))"
  shows "mtime_of r \<le> mtime_of k"
proof -
  let ?d = "backups f"
  let ?s = "sort_key mtime_of ?d" and ?m = "length ?d - 10"
  from assms(3,4) obtain y where y: "y \<in> set (pruned ?d)" "fst y = fst r"
    by (auto simp: cleanup_backups)
  from y(1) pruned_subset [of ?d] have "y \<in> set ?d" by blast
  with assms(1,3) y(2) have "y = r"
    by (cases y, cases r) (auto dest: eq_key_imp_eq_value)
  with y have r: "r \<in> set (take ?m ?s)" by (simp add: pruned_def)
  from assms(2) have "k \<in> set ?d" "k \<notin> set (pruned ?d)"
    by (auto simp: cleanup_backups)
  moreover have "set ?d = set (take ?m ?s) \<union> set (drop ?m ?s)"
    by (metis append_take_drop_id set_append set_sort)
  ultimately have "k \<in> set (drop ?m ?s)" by (auto simp: pruned_def)
  with r show ?thesis by (rule sorted_take_drop_le [OF sorted_sort_key])
qed

lemma update_fresh: "k \<notin> fst ` set d \<Longrightarrow> AList.update k v d = d @ [(k, v)]"
  by (induction d) auto

lemma map_of_filter_out: "k \<in> fst ` set ns \<Longrightarrow> map_of (filter (\<lambda>p. fst p \<notin> fst ` set ns) d) k = None"
  by (induction d) force+


lemma card_image_distinct: "distinct (map g xs) \<Longrightarrow> card (g ` set xs) = length xs"
  using distinct_card [of "map g xs"] by simp

lemma create_backups_snoc:
  "create_backups (cs @ [(ty, st, m)]) f = snd (create_backup ty st m (create_backups cs f))"
  by (induction cs arbitrary: f) auto

lemma backups_create_backup:
  "backups (snd (create_backup ty st m f)) =
     (let d = AList.update (backup_name ty st) \<lparr>bf_mtime = m, bf_image = db f\<rparr> (backups f)
      in filter (\<lambda>p. fst p \<notin> fst ` set (pruned d)) d)"
  by (simp add: create_backup_def cleanup_backups Let_def)

lemma length_create_backup_le: "length (backups (snd (create_backup ty st m f))) \<le> 10"
  by (simp add: create_backup_def length_cleanup_le)

lemma set_update_cases:
  "p \<in> set (AList.update k v d) \<Longrightarrow> p = (k, v) \<or> p \<in> set d"
  by (induction d) (auto split: if_splits)

lemma set_update_other: "p \<in> set d \<Longrightarrow> fst p \<noteq> k \<Longrightarrow> p \<in> set (AList.update k v d)"
  by (induction d) auto

lemma set_update_new: "(k, v) \<in> set (AList.update k v d)"
  by (induction d) auto

lemma distinct_keys_eq:
  "distinct (map fst d) \<Longrightarrow> x \<in> set d \<Longrightarrow> y \<in> set d \<Longrightarrow> fst x = fst y \<Longrightarrow> x = y"
  by (cases x, cases y) (auto dest: eq_key_imp_eq_value)

lemma sorted_wrt_suffix:
  fixes g :: "'a \<Rightarrow> nat"
  assumes "sorted_wrt (<) (map g cs)" "c \<in> set (drop k cs)" "c' \<in> set cs" "g c \<le> g c'"
  shows "c' \<in> set (drop k cs)"
proof (rule ccontr)
  assume "c' \<notin> set (drop k cs)"
  with assms(3) have "c' \<in> set (take k cs)"
    by (metis Un_iff append_take_drop_id set_append)
  moreover have "sorted_wrt (<) (map g (take k cs) @ map g (drop k cs))"
    using assms(1) by (simp flip: map_append)
  ultimately have "g c' < g c" using assms(2) by (auto simp: sorted_wrt_append)
  with assms(4) show False by simp
qed

lemma create_backups_invariant:
  assumes "distinct (map fst (backups f0))"
      and "distinct (map name_of_call cs)"
      and "sorted_wrt (<) (map mtime_of_call cs)"
      and "\<forall>p \<in> set (backups f0). \<forall>c \<in> set cs. mtime_of p < mtime_of_call c"
  shows "distinct (map fst (backups (create_backups cs f0))) \<and>
         (\<forall>p \<in> set (backups (create_backups cs f0)).
            p \<in> set (backups f0) \<or>
            (\<exists>c \<in> set cs. fst p = name_of_call c \<and> mtime_of p = mtime_of_call c)) \<and>
         (\<forall>c \<in> set (drop (length cs - 10) cs).
            \<exists>p \<in> set (backups (create_backups cs f0)).
              fst p = name_of_call c \<and> mtime_of p = mtime_of_call c)"
  using assms
proof (induction cs rule: rev_induct)
  case Nil
  then show ?case by simp
next
  case (snoc c cs)
  let ?cs' = "cs @ [c]"
  let ?f = "create_backups cs f0"
  let ?new = "\<lparr>bf_mtime = mtime_of_call c, bf_image = db ?f\<rparr>"
  let ?d' = "AList.update (name_of_call c) ?new (backups ?f)"
  let ?res = "filter (\<lambda>p. fst p \<notin> fst ` set (pruned ?d')) ?d'"
  have res: "backups (create_backups ?cs' f0) = ?res"
    by (cases c)
      (simp add: create_backups_snoc backups_create_backup name_of_call_def mtime_of_call_def
        Let_def)
  have pre: "distinct (map name_of_call cs)" "sorted_wrt (<) (map mtime_of_call cs)"
    "\<forall>p \<in> set (backups f0). \<forall>c \<in> set cs. mtime_of p < mtime_of_call c"
    using snoc.prems by (auto simp: sorted_wrt_append)
  note IH = snoc.IH [OF snoc.prems(1) pre]
  note IH1 = IH [THEN conjunct1] and IH2 = IH [THEN conjunct2, THEN conjunct1]
    and IH3 = IH [THEN conjunct2, THEN conjunct2]
  from IH1 have dist: "distinct (map fst (backups ?f))" .
  have dist': "distinct (map fst ?d')" using dist by (rule distinct_update)
  have origin': "p \<in> set (backups f0) \<or>
      (\<exists>c' \<in> set ?cs'. fst p = name_of_call c' \<and> mtime_of p = mtime_of_call c')"
    if "p \<in> set ?d'" for p
  proof -
    from set_update_cases [OF that] show ?thesis
    proof
      assume "p = (name_of_call c, ?new)"
      then show ?thesis by simp
    next
      assume "p \<in> set (backups ?f)"
      with IH2 have "p \<in> set (backups f0) \<or>
        (\<exists>c' \<in> set cs. fst p = name_of_call c' \<and> mtime_of p = mtime_of_call c')" by (rule bspec)
      then show ?thesis by auto
    qed
  qed
  have kept: "\<exists>p \<in> set ?res. fst p = name_of_call c' \<and> mtime_of p = mtime_of_call c'"
    if c': "c' \<in> set (drop (length ?cs' - 10) ?cs')" for c'
  proof -
    have c'_in: "c' \<in> set ?cs'" using c' by (rule in_set_dropD)
    obtain x where x: "x \<in> set ?d'" "fst x = name_of_call c'" "mtime_of x = mtime_of_call c'"
    proof (cases "c' = c")
      case True
      show ?thesis
        by (rule that [of "(name_of_call c, ?new)"]) (simp_all add: True set_update_new)
    next
      case False
      with c'_in have c'_cs: "c' \<in> set cs" by simp
      have "length cs - 10 \<le> length ?cs' - 10" by simp
      from c' False have "c' \<in> set (drop (length ?cs' - 10) cs)" by auto
      then have "c' \<in> set (drop (length cs - 10) cs)"
        by (metis \<open>length cs - 10 \<le> length ?cs' - 10\<close> set_drop_subset_set_drop subsetD)
      with IH3 obtain p where p: "p \<in> set (backups ?f)" "fst p = name_of_call c'"
        "mtime_of p = mtime_of_call c'" by blast
      from snoc.prems(2) have "name_of_call c \<notin> name_of_call ` set cs" by simp
      with c'_cs have "name_of_call c' \<noteq> name_of_call c" by (metis imageI)
      with p show ?thesis by (intro that [of p] set_update_other) auto
    qed
    let ?P = "\<lambda>p. mtime_of x \<le> mtime_of p"
    have "fst ` set (filter ?P ?d') \<subseteq> name_of_call ` set (drop (length ?cs' - 10) ?cs')"
    proof
      fix n assume "n \<in> fst ` set (filter ?P ?d')"
      then obtain p where p: "p \<in> set ?d'" "?P p" "n = fst p" by auto
      from origin' [OF p(1)] show "n \<in> name_of_call ` set (drop (length ?cs' - 10) ?cs')"
      proof
        assume "p \<in> set (backups f0)"
        with snoc.prems(4) c'_in have "mtime_of p < mtime_of_call c'" by blast
        with p(2) x(3) show ?thesis by simp
      next
        assume "\<exists>c'' \<in> set ?cs'. fst p = name_of_call c'' \<and> mtime_of p = mtime_of_call c''"
        then obtain c'' where c'': "c'' \<in> set ?cs'" "fst p = name_of_call c''"
          "mtime_of p = mtime_of_call c''" by blast
        with p(2) x(3) have "mtime_of_call c' \<le> mtime_of_call c''" by simp
        from sorted_wrt_suffix [OF snoc.prems(3) c' c''(1) this] c''(2) p(3)
        show ?thesis by blast
      qed
    qed
    then have "card (fst ` set (filter ?P ?d')) \<le> card (name_of_call ` set (drop (length ?cs' - 10) ?cs'))"
      by (intro card_mono) auto
    also have "\<dots> \<le> card (set (drop (length ?cs' - 10) ?cs'))" by (intro card_image_le) simp
    also have "\<dots> \<le> length (drop (length ?cs' - 10) ?cs')" by (rule card_length)
    also have "\<dots> \<le> 10" by simp
    finally have "card (fst ` set (filter ?P ?d')) \<le> 10" .
    moreover have "distinct (map fst (filter ?P ?d'))" using dist' by (rule distinct_map_filter)
    then have "card (fst ` set (filter ?P ?d')) = length (filter ?P ?d')"
      by (rule card_image_distinct)
    ultimately have "length (filter ?P ?d') \<le> 10" by simp
    with x(1) have notpr: "x \<notin> set (pruned ?d')" by (rule recent_entry_kept)
    have "fst x \<notin> fst ` set (pruned ?d')"
    proof
      assume "fst x \<in> fst ` set (pruned ?d')"
      then obtain y where y: "y \<in> set (pruned ?d')" "fst x = fst y" by auto
      with pruned_subset [of ?d'] have "y \<in> set ?d'" by blast
      from distinct_keys_eq [OF dist' x(1) this y(2)] y(1) notpr show False by simp
    qed
    with x show ?thesis by (intro bexI [of _ x]) auto
  qed
  have "distinct (map fst ?res)" using dist' by (rule distinct_map_filter)
  moreover have "\<forall>p \<in> set ?res. p \<in> set (backups f0) \<or>
      (\<exists>c' \<in> set ?cs'. fst p = name_of_call c' \<and> mtime_of p = mtime_of_call c')"
    using origin' by simp
  moreover have "\<forall>c' \<in> set (drop (length ?cs' - 10) ?cs').
      \<exists>p \<in> set ?res. fst p = name_of_call c' \<and> mtime_of p = mtime_of_call c'"
    using kept by (rule ballI)
  ultimately show ?case unfolding res by (intro conjI)
qed

subsection \<open>Retention\<close>

text \<open>
  Claim C6, as the code has it.  After every \<^verbatim>\<open>create_backup\<close> at most ten backups are
  in the directory, and whatever was removed is no newer (by modification time) than
  whatever was kept.  A file name carries the backup type and the time to the second, so
  two backups of one type within one second are one file: after fifteen calls exactly
  ten backups remain, the ten created last, when the fifteen calls have fifteen different
  file names and increasing modification times, later than those of the backups already
  there.
\<close>

theorem backup_retention:
  assumes "distinct (map fst (backups f))"
  shows "length (backups (snd (create_backup backup_type stamp mtime f))) \<le> 10 \<and>
         (\<forall>k \<in> set (backups (snd (create_backup backup_type stamp mtime f))).
          \<forall>r \<in> set (AList.update (backup_name backup_type stamp)
                       \<lparr>bf_mtime = mtime, bf_image = db f\<rparr> (backups f)).
            r \<notin> set (backups (snd (create_backup backup_type stamp mtime f)))
              \<longrightarrow> mtime_of r \<le> mtime_of k) \<and>
         (10 \<le> length calls \<and> distinct (map name_of_call calls) \<and>
          sorted_wrt (<) (map mtime_of_call calls) \<and>
          (\<forall>p \<in> set (backups f). \<forall>c \<in> set calls. mtime_of p < mtime_of_call c)
            \<longrightarrow> length (backups (create_backups calls f)) = 10 \<and>
                fst ` set (backups (create_backups calls f)) =
                  name_of_call ` set (drop (length calls - 10) calls))"
proof (intro conjI impI ballI)
  show "length (backups (snd (create_backup backup_type stamp mtime f))) \<le> 10"
    by (rule length_create_backup_le)
next
  fix k r
  let ?f1 = "f\<lparr>backups := AList.update (backup_name backup_type stamp)
                 \<lparr>bf_mtime = mtime, bf_image = db f\<rparr> (backups f)\<rparr>"
  assume "k \<in> set (backups (snd (create_backup backup_type stamp mtime f)))"
    and "r \<in> set (AList.update (backup_name backup_type stamp)
                 \<lparr>bf_mtime = mtime, bf_image = db f\<rparr> (backups f))"
    and "r \<notin> set (backups (snd (create_backup backup_type stamp mtime f)))"
  then have "k \<in> set (backups (cleanup_old_backups 10 ?f1))" "r \<in> set (backups ?f1)"
    "r \<notin> set (backups (cleanup_old_backups 10 ?f1))"
    by (simp_all add: create_backup_def)
  moreover have "distinct (map fst (backups ?f1))"
    using assms by (simp add: distinct_update)
  ultimately show "mtime_of r \<le> mtime_of k" by (rule kept_are_newest [rotated])
next
  let ?res = "backups (create_backups calls f)"
  let ?last = "drop (length calls - 10) calls"
  assume a: "10 \<le> length calls \<and> distinct (map name_of_call calls) \<and>
          sorted_wrt (<) (map mtime_of_call calls) \<and>
          (\<forall>p \<in> set (backups f). \<forall>c \<in> set calls. mtime_of p < mtime_of_call c)"
  then have inv: "distinct (map fst ?res) \<and>
         (\<forall>p \<in> set ?res. p \<in> set (backups f) \<or>
            (\<exists>c \<in> set calls. fst p = name_of_call c \<and> mtime_of p = mtime_of_call c)) \<and>
         (\<forall>c \<in> set ?last. \<exists>p \<in> set ?res.
              fst p = name_of_call c \<and> mtime_of p = mtime_of_call c)"
    using assms by (intro create_backups_invariant) simp_all
  from a obtain cs c where calls: "calls = cs @ [c]" by (cases calls rule: rev_cases) auto
  have le: "length ?res \<le> 10"
    unfolding calls by (cases c) (simp add: create_backups_snoc length_create_backup_le)
  have sub: "name_of_call ` set ?last \<subseteq> fst ` set ?res"
  proof
    fix n assume "n \<in> name_of_call ` set ?last"
    then obtain c' where "c' \<in> set ?last" "n = name_of_call c'" by auto
    with inv obtain p where "p \<in> set ?res" "fst p = n" by blast
    then show "n \<in> fst ` set ?res" by auto
  qed
  have "distinct (map name_of_call ?last)" using a by (simp add: distinct_drop flip: drop_map)
  then have "card (name_of_call ` set ?last) = length ?last" by (rule card_image_distinct)
  also have "\<dots> = 10" using a by simp
  finally have c10: "card (name_of_call ` set ?last) = 10" .
  have cres: "card (fst ` set ?res) = length ?res"
    using inv by (intro card_image_distinct) simp
  have "10 \<le> card (fst ` set ?res)"
    using card_mono [OF _ sub] c10 by simp
  with cres le have len: "length ?res = 10" by simp
  with cres c10 have "card (fst ` set ?res) \<le> card (name_of_call ` set ?last)" by simp
  with sub have "name_of_call ` set ?last = fst ` set ?res" by (intro card_seteq) auto
  with len show "length ?res = 10" "fst ` set ?res = name_of_call ` set ?last" by simp_all
qed

theorem backup_retention_witness:
  "length (backups (create_backups fifteen_calls ten_backups)) = 10 \<and>
   fst ` set (backups (create_backups fifteen_calls ten_backups)) =
     name_of_call ` set (drop 5 fifteen_calls) \<and>
   length (backups (snd (create_backup ''auto'' ''20240120_030000'' 20 ten_backups))) \<le> 10"
proof -
  have d: "distinct (map fst (backups ten_backups))"
    by (simp add: ten_backups_def nightly_def backup_name_def show_nat.simps digit_def upt_rec)
  have c: "10 \<le> length fifteen_calls \<and> distinct (map name_of_call fifteen_calls) \<and>
      sorted_wrt (<) (map mtime_of_call fifteen_calls) \<and>
      (\<forall>p \<in> set (backups ten_backups). \<forall>c \<in> set fifteen_calls. mtime_of p < mtime_of_call c)"
    by (simp add: ten_backups_def nightly_def fifteen_calls_def name_of_call_def
      mtime_of_call_def backup_name_def show_nat.simps digit_def upt_rec)
  have l: "length fifteen_calls - 10 = 5" by (simp add: fifteen_calls_def)
  from backup_retention [OF d, of "''auto''" "''20240120_030000''" 20 fifteen_calls] c l
  show ?thesis by simp
qed

text \<open>
  Claim C6 as stated fails when calls share a file name: fifteen manual backups within
  one second leave one file in an empty directory, not ten.
\<close>

theorem fifteen_backups_counterexample:
  "length (backups (create_backups fifteen_calls_one_second no_backups)) = 1"
  by (simp add: fifteen_calls_one_second_def no_backups_def create_backup_def
    cleanup_old_backups_def backup_name_def numeral_eq_Suc)

subsection \<open>Restoring\<close>

text \<open>
  Claim C7 at a failing input.  The directory holds ten nightly backups and the oldest is
  to be restored.  The path exists, so the safety backup is written; it is the eleventh
  file, the retention removes the oldest, and that is the backup \<^verbatim>\<open>gzip.open\<close> then
  looks for: the call raises instead of returning True.
\<close>

theorem restore_backup_oldest_of_ten:
  "backup_name ''auto'' ''20240110_030000'' \<in> fst ` set (backups ten_backups) \<and>
   fst (restore_backup (backup_name ''auto'' ''20240110_030000'') ''20240120_120000'' 20
          ten_backups) = Inl FileNotFoundError"
  by (simp add: restore_backup_def ten_backups_def nightly_def create_backup_def
    cleanup_old_backups_def all_but_last_def upt_rec show_nat.simps digit_def backup_name_def
    Let_def)

lemma create_backup_fresh:
  assumes "backup_name backup_type stamp \<notin> fst ` set (backups f)"
  shows "backups (snd (create_backup backup_type stamp mtime f)) =
     filter (\<lambda>p. fst p \<notin> fst ` set (pruned (backups f @
         [(backup_name backup_type stamp, \<lparr>bf_mtime = mtime, bf_image = db f\<rparr>)])))
       (backups f @ [(backup_name backup_type stamp, \<lparr>bf_mtime = mtime, bf_image = db f\<rparr>)])"
  using assms by (simp add: create_backup_def cleanup_backups update_fresh)

lemma filter_out_keys: "k \<in> A \<Longrightarrow> k \<notin> fst ` set (filter (\<lambda>p. fst p \<notin> A) d)"
  by auto

lemma map_of_filter_keep: "k \<notin> A \<Longrightarrow> map_of (filter (\<lambda>p. fst p \<notin> A) d) k = map_of d k"
  by (induction d) auto

lemma create_backup_other_files:
  "db (snd (create_backup backup_type stamp mtime f)) = db f"
  "outside (snd (create_backup backup_type stamp mtime f)) = outside f"
  by (simp_all add: create_backup_def cleanup_old_backups_def Let_def)

text \<open>
  A path that names no file is reported by the value False and nothing is written.  A
  gzip file outside the backups directory is not touched by the retention: the safety
  backup is taken and the live store becomes the store of the file.
\<close>

lemma restore_backup_elsewhere:
  assumes "path \<notin> fst ` set (backups f)"
  shows "(outside f path = None \<longrightarrow> restore_backup path stamp mtime f = (Inr False, f)) \<and>
     (\<forall>stored. outside f path = Some stored \<longrightarrow>
        (\<exists>f'. restore_backup path stamp mtime f = (Inr True, f') \<and> db f' = stored \<and>
              backups f' = backups (snd (create_backup ''pre_restore'' stamp mtime f)) \<and>
              outside f' = outside f))"
  using assms by (simp add: restore_backup_def create_backup_other_files)

text \<open>
  Claim C9.  The path names a backup of the directory, the safety backup gets a new file
  name, and ten backups are strictly newer than the one to restore, the safety backup
  counted with them when it is newer: a directory of more than ten backups and one of
  its oldest, or the ten backups \<^verbatim>\<open>create_backup\<close> leaves and the oldest of them.
  Then the safety backup is written, the retention that follows it removes the backup to
  restore, and \<^verbatim>\<open>restore_backup\<close> raises \<^verbatim>\<open>FileNotFoundError\<close>: the directory it
  leaves holds no file of that name and no new file but the safety backup, it holds the
  safety backup unless ten backups are at least as new, and the live store is the one
  before the call.
\<close>

theorem restore_backup_pruned:
  assumes "map_of (backups f) path = Some b"
      and "backup_name ''pre_restore'' stamp \<notin> fst ` set (backups f)"
      and "10 \<le> length (filter (\<lambda>p. bf_mtime b < bf_mtime (snd p)) (backups f)) +
                 (if bf_mtime b < mtime then 1 else 0)"
  shows "\<exists>f'. restore_backup path stamp mtime f = (Inl FileNotFoundError, f') \<and>
     path \<notin> fst ` set (backups f') \<and>
     set (backups f') \<subseteq>
       insert (backup_name ''pre_restore'' stamp, \<lparr>bf_mtime = mtime, bf_image = db f\<rparr>)
         (set (backups f)) \<and>
     (length (filter (\<lambda>p. mtime \<le> bf_mtime (snd p)) (backups f)) < 10 \<longrightarrow>
        map_of (backups f') (backup_name ''pre_restore'' stamp) =
          Some \<lparr>bf_mtime = mtime, bf_image = db f\<rparr>) \<and>
     db f' = db f \<and> outside f' = outside f"
proof -
  let ?name = "backup_name ''pre_restore'' stamp"
  let ?new = "(?name, \<lparr>bf_mtime = mtime, bf_image = db f\<rparr>)"
  let ?d = "backups f @ [?new]"
  let ?f1 = "snd (create_backup ''pre_restore'' stamp mtime f)"
  have d: "backups ?f1 = filter (\<lambda>p. fst p \<notin> fst ` set (pruned ?d)) ?d"
    using assms(2) by (rule create_backup_fresh)
  from assms(1) have mem: "(path, b) \<in> set (backups f)" by (rule map_of_SomeD)
  then have ex: "path \<in> fst ` set (backups f)" by force
  have "10 \<le> length (filter (\<lambda>p. mtime_of (path, b) < mtime_of p) ?d)"
    using assms(3) by (simp split: if_splits)
  moreover have "(path, b) \<in> set ?d" using mem by simp
  ultimately have "(path, b) \<in> set (pruned ?d)" by (rule old_entry_pruned [rotated])
  then have gone: "path \<in> fst ` set (pruned ?d)" by force
  then have "map_of (backups ?f1) path = None"
    unfolding d by (rule map_of_filter_out)
  with ex have "restore_backup path stamp mtime f = (Inl FileNotFoundError, ?f1)"
    by (simp add: restore_backup_def)
  moreover from gone have "path \<notin> fst ` set (backups ?f1)"
    unfolding d by (rule filter_out_keys)
  moreover have "set (backups ?f1) \<subseteq> insert ?new (set (backups f))"
    unfolding d by auto
  moreover have "map_of (backups ?f1) ?name = Some \<lparr>bf_mtime = mtime, bf_image = db f\<rparr>"
    if "length (filter (\<lambda>p. mtime \<le> bf_mtime (snd p)) (backups f)) < 10"
  proof -
    have "?new \<in> set ?d" by simp
    moreover have "length (filter (\<lambda>p. mtime_of ?new \<le> mtime_of p) ?d) \<le> 10"
      using that by simp
    ultimately have kept: "?new \<notin> set (pruned ?d)" by (rule recent_entry_kept)
    have "?name \<notin> fst ` set (pruned ?d)"
    proof
      assume "?name \<in> fst ` set (pruned ?d)"
      then obtain y where y: "y \<in> set (pruned ?d)" "fst y = ?name" by auto
      with pruned_subset [of ?d] have "y \<in> set ?d" by blast
      with y(2) assms(2) have "y = ?new" by (cases y) force
      with y(1) kept show False by simp
    qed
    then have "map_of (backups ?f1) ?name = map_of ?d ?name"
      unfolding d by (rule map_of_filter_keep)
    also have "\<dots> = Some \<lparr>bf_mtime = mtime, bf_image = db f\<rparr>"
    proof -
      from assms(2) have "map_of (backups f) ?name = None"
        by (simp add: map_of_eq_None_iff)
      then show ?thesis by (simp add: map_of_append map_add_def)
    qed
    finally show ?thesis .
  qed
  ultimately show ?thesis
    by (intro exI [of _ ?f1]) (simp add: create_backup_other_files)
qed

theorem restore_backup_pruned_witness:
  "backup_name ''auto'' ''20240111_030000'' \<in> fst ` set (backups eleven_backups) \<and>
   (\<exists>f'. restore_backup (backup_name ''auto'' ''20240111_030000'') ''20240121_120000'' 21
            eleven_backups = (Inl FileNotFoundError, f') \<and>
      backup_name ''auto'' ''20240111_030000'' \<notin> fst ` set (backups f') \<and>
      map_of (backups f') (backup_name ''pre_restore'' ''20240121_120000'') =
        Some \<lparr>bf_mtime = 21, bf_image = empty_store\<rparr> \<and>
      db f' = empty_store) \<and>
   backup_name ''auto'' ''20240110_030000'' \<in> fst ` set (backups ten_backups) \<and>
   (\<exists>f'. restore_backup (backup_name ''auto'' ''20240110_030000'') ''20240120_120000'' 20
            ten_backups = (Inl FileNotFoundError, f') \<and>
      backup_name ''auto'' ''20240110_030000'' \<notin> fst ` set (backups f') \<and>
      map_of (backups f') (backup_name ''pre_restore'' ''20240120_120000'') =
        Some \<lparr>bf_mtime = 20, bf_image = empty_store\<rparr> \<and>
      db f' = empty_store)"
proof -
  have 1: "map_of (backups eleven_backups) (backup_name ''auto'' ''20240111_030000'') =
             Some \<lparr>bf_mtime = 11, bf_image = empty_store\<rparr>"
    by (simp add: eleven_backups_def nightly_def backup_name_def show_nat.simps digit_def
      upt_rec)
  have 2: "backup_name ''pre_restore'' ''20240121_120000'' \<notin> fst ` set (backups eleven_backups)"
    by (simp add: eleven_backups_def nightly_def backup_name_def show_nat.simps digit_def
      upt_rec)
  have 3: "10 \<le> length (filter
      (\<lambda>p. bf_mtime \<lparr>bf_mtime = 11, bf_image = empty_store\<rparr> < bf_mtime (snd p))
      (backups eleven_backups)) +
      (if bf_mtime \<lparr>bf_mtime = 11, bf_image = empty_store\<rparr> < 21 then 1 else 0)"
    by (simp add: eleven_backups_def nightly_def upt_rec)
  have 4: "length (filter (\<lambda>p. 21 \<le> bf_mtime (snd p)) (backups eleven_backups)) < 10"
    by (simp add: eleven_backups_def nightly_def upt_rec)
  have 5: "db eleven_backups = empty_store" by (simp add: eleven_backups_def)
  from restore_backup_pruned [OF 1 2 3] 4 5
  obtain f' where f': "restore_backup (backup_name ''auto'' ''20240111_030000'')
        ''20240121_120000'' 21 eleven_backups = (Inl FileNotFoundError, f')"
      "backup_name ''auto'' ''20240111_030000'' \<notin> fst ` set (backups f')"
      "map_of (backups f') (backup_name ''pre_restore'' ''20240121_120000'') =
        Some \<lparr>bf_mtime = 21, bf_image = empty_store\<rparr>"
      "db f' = empty_store"
    by auto
  from map_of_SomeD [OF 1]
  have a: "backup_name ''auto'' ''20240111_030000'' \<in> fst ` set (backups eleven_backups)"
    by force
  have 6: "map_of (backups ten_backups) (backup_name ''auto'' ''20240110_030000'') =
             Some \<lparr>bf_mtime = 10, bf_image = empty_store\<rparr>"
    by (simp add: ten_backups_def nightly_def backup_name_def show_nat.simps digit_def
      upt_rec)
  have 7: "backup_name ''pre_restore'' ''20240120_120000'' \<notin> fst ` set (backups ten_backups)"
    by (simp add: ten_backups_def nightly_def backup_name_def show_nat.simps digit_def
      upt_rec)
  have 8: "10 \<le> length (filter
      (\<lambda>p. bf_mtime \<lparr>bf_mtime = 10, bf_image = empty_store\<rparr> < bf_mtime (snd p))
      (backups ten_backups)) +
      (if bf_mtime \<lparr>bf_mtime = 10, bf_image = empty_store\<rparr> < 20 then 1 else 0)"
    by (simp add: ten_backups_def nightly_def upt_rec)
  have 9: "length (filter (\<lambda>p. 20 \<le> bf_mtime (snd p)) (backups ten_backups)) < 10"
    by (simp add: ten_backups_def nightly_def upt_rec)
  have 10: "db ten_backups = empty_store" by (simp add: ten_backups_def)
  from restore_backup_pruned [OF 6 7 8] 9 10
  obtain g' where g': "restore_backup (backup_name ''auto'' ''20240110_030000'')
        ''20240120_120000'' 20 ten_backups = (Inl FileNotFoundError, g')"
      "backup_name ''auto'' ''20240110_030000'' \<notin> fst ` set (backups g')"
      "map_of (backups g') (backup_name ''pre_restore'' ''20240120_120000'') =
        Some \<lparr>bf_mtime = 20, bf_image = empty_store\<rparr>"
      "db g' = empty_store"
    by auto
  from map_of_SomeD [OF 6]
  have b: "backup_name ''auto'' ''20240110_030000'' \<in> fst ` set (backups ten_backups)"
    by force
  from f' a g' b show ?thesis by blast
qed

end
